theory Spec2Isabelle
  imports Complex_Main "HOL-Library.AList"
begin

section \<open>JavaScript primitives used by the template code\<close>

text \<open>
  Exceptions and rejections are values. \<open>CapacityExceeded\<close> stands for the early return of
  \<open>createTemplate\<close> after \<open>handleDisplayError\<close>; \<open>DecodeFailure\<close> for a rejected
  \<open>createImageBitmap\<close>; \<open>TypeError\<close> for a canvas dimension that is NaN or negative
  (the attribute is an enforced-range unsigned integer) and for \<open>drawImage\<close> of
  \<open>undefined\<close>; \<open>IndexSizeError\<close> for \<open>getImageData\<close> of an empty rectangle;
  \<open>Diverges\<close> marks the one loop state from which the source would never return.
\<close>

datatype error = CapacityExceeded | DecodeFailure | TypeError | IndexSizeError | Diverges

text \<open>
  The remainder operator \<open>a % b\<close> on integers truncates towards zero: the result has
  the sign of the dividend. For \<open>b = 0\<close> JavaScript yields NaN; the callers below
  treat that case before calling \<open>jsRem\<close>.
\<close>

definition jsRem :: "int \<Rightarrow> int \<Rightarrow> int" where
  "jsRem a b = (if a < 0 then - ((- a) mod \<bar>b\<bar>) else a mod \<bar>b\<bar>)"

text \<open>\<open>Number.prototype.toString()\<close> on an integer: decimal digits, a minus sign if negative.\<close>

definition digitChar :: "nat \<Rightarrow> char" where
  "digitChar n = ''0123456789'' ! n"

fun digitsOf :: "nat \<Rightarrow> string" where
  "digitsOf n = (if n < 10 then [digitChar n] else digitsOf (n div 10) @ [digitChar (n mod 10)])"

declare digitsOf.simps [simp del]

definition toString :: "int \<Rightarrow> string" where
  "toString i = (if i < 0 then CHR ''-'' # digitsOf (nat (- i)) else digitsOf (nat i))"

text \<open>\<open>String.prototype.padStart(n, c)\<close> with a one-character filler.\<close>

definition padStart :: "nat \<Rightarrow> char \<Rightarrow> string \<Rightarrow> string" where
  "padStart n c s = replicate (n - length s) c @ s"

definition startsWith :: "string \<Rightarrow> string \<Rightarrow> bool" where
  "startsWith s p = (take (length p) s = p)"

text \<open>\<open>String.prototype.split(c)\<close> for a one-character separator; \<open>''''.split\<close> is \<open>['''']\<close>.\<close>

fun split :: "char \<Rightarrow> string \<Rightarrow> string list" where
  "split c [] = [[]]"
| "split c (x # xs) =
     (if x = c then [] # split c xs
      else (case split c xs of [] \<Rightarrow> [[x]] | h # t \<Rightarrow> (x # h) # t))"

text \<open>
  \<open>Number(s)\<close> on the decimal integer fragment: the empty string is 0, a digit string
  (leading zeros allowed) is its value, an optional sign may precede the digits; every
  other string of this fragment is NaN (\<open>None\<close>), as is \<open>undefined\<close>. Tile keys only
  hold fields of this fragment; whitespace, fractions, exponents and radix prefixes, which
  \<open>Number\<close> also accepts, are not modelled.
\<close>

definition isDigit :: "char \<Rightarrow> bool" where
  "isDigit c = (c \<in> set ''0123456789'')"

definition digitVal :: "char \<Rightarrow> nat" where
  "digitVal c = of_char c - 48"

definition decimalValue :: "string \<Rightarrow> nat" where
  "decimalValue s = foldl (\<lambda>a c. 10 * a + digitVal c) 0 s"

definition Number :: "string option \<Rightarrow> int option" where
  "Number v =
     (case v of
        None \<Rightarrow> None
      | Some s \<Rightarrow>
          (if list_all isDigit s then Some (int (decimalValue s))
           else (case s of
                   [] \<Rightarrow> Some 0
                 | c # r \<Rightarrow>
                     if c = CHR ''-'' \<and> r \<noteq> [] \<and> list_all isDigit r then Some (- int (decimalValue r))
                     else if c = CHR ''+'' \<and> r \<noteq> [] \<and> list_all isDigit r then Some (int (decimalValue r))
                     else None)))"

text \<open>Array indexing \<open>xs[i]\<close>: \<open>undefined\<close> (\<open>None\<close>) out of range.\<close>

definition nthOpt :: "'a list \<Rightarrow> nat \<Rightarrow> 'a option" where
  "nthOpt xs i = (if i < length xs then Some (xs ! i) else None)"

section \<open>The palette and the nearest-colour queries of class Template\<close>

text \<open>
  \<open>colorpalette\<close> is imported from \<open>./utils\<close> and is a parameter of the model: an ordered
  list of entries with a name and an RGB triple. \<open>pRgb = None\<close> is an entry without an
  \<open>rgb\<close> array, for which \<open>c.rgb || []\<close> destructures to \<open>undefined\<close>.
\<close>

record paletteEntry =
  pName :: string
  pRgb :: "(int \<times> int \<times> int) option"

type_synonym palette = "paletteEntry list"

text \<open>Squared Euclidean distance, \<open>dr*dr + dg*dg + db*db\<close>.\<close>

definition sqDist :: "int \<Rightarrow> int \<Rightarrow> int \<Rightarrow> int \<times> int \<times> int \<Rightarrow> int" where
  "sqDist r g b p = (case p of (pr, pg, pb) \<Rightarrow>
     (let dr = r - pr; dg = g - pg; db = b - pb in dr * dr + dg * dg + db * db))"

text \<open>\<open>dist < bestDist\<close> where \<open>bestDist\<close> starts as \<open>Infinity\<close> (\<open>None\<close>).\<close>

definition lessThanBest :: "int \<Rightarrow> int option \<Rightarrow> bool" where
  "lessThanBest d bestDist = (case bestDist of None \<Rightarrow> True | Some e \<Rightarrow> d < e)"

text \<open>One iteration of the loop of \<open>#nearestPaletteRGB\<close> over the state \<open>(best, bestDist)\<close>.\<close>

definition rgbStep ::
  "int \<Rightarrow> int \<Rightarrow> int \<Rightarrow> paletteEntry \<Rightarrow> (int \<times> int \<times> int) option \<times> int option
     \<Rightarrow> (int \<times> int \<times> int) option \<times> int option" where
  "rgbStep r g b c st =
     (if pName c = ''Transparent'' then st
      else (case pRgb c of
              None \<Rightarrow> st
            | Some p \<Rightarrow>
                (let dist = sqDist r g b p
                 in if lessThanBest dist (snd st) then (Some p, Some dist) else st)))"

definition nearestPaletteRGB :: "palette \<Rightarrow> int \<Rightarrow> int \<Rightarrow> int \<Rightarrow> int \<times> int \<times> int" where
  "nearestPaletteRGB colorpalette r g b =
     (case fst (fold (rgbStep r g b) colorpalette (None, None)) of
        None \<Rightarrow> (r, g, b)
      | Some best \<Rightarrow> best)"

text \<open>
  One iteration of the loop of \<open>#nearestPaletteIndex\<close> over \<open>(bestIndex, bestDist)\<close>; the
  loop runs over the positions \<open>i\<close> of the full palette and starts at index 1.
\<close>

definition indexStep ::
  "palette \<Rightarrow> int \<Rightarrow> int \<Rightarrow> int \<Rightarrow> nat \<Rightarrow> nat \<times> int option \<Rightarrow> nat \<times> int option" where
  "indexStep colorpalette r g b i st =
     (let c = colorpalette ! i in
      if pName c = ''Transparent'' then st
      else (case pRgb c of
              None \<Rightarrow> st
            | Some p \<Rightarrow>
                (let dist = sqDist r g b p
                 in if lessThanBest dist (snd st) then (i, Some dist) else st)))"

definition nearestPaletteIndex :: "palette \<Rightarrow> int \<Rightarrow> int \<Rightarrow> int \<Rightarrow> nat" where
  "nearestPaletteIndex colorpalette r g b =
     fst (fold (indexStep colorpalette r g b) [0..<length colorpalette] (1, None))"

text \<open>The entries the scan does not skip: not named Transparent, and with an \<open>rgb\<close>.\<close>

definition searchable :: "paletteEntry \<Rightarrow> bool" where
  "searchable c = (pName c \<noteq> ''Transparent'' \<and> pRgb c \<noteq> None)"

definition entryDist :: "int \<Rightarrow> int \<Rightarrow> int \<Rightarrow> paletteEntry \<Rightarrow> int" where
  "entryDist r g b c = sqDist r g b (the (pRgb c))"

section \<open>Class Template: slicing an image into tile regions\<close>

text \<open>
  An image: width, height and the RGBA bytes in row-major order (four per pixel). For
  the template's file these are the pixels of the decoded file, with straight alpha; for
  an \<open>ImageData\<close> they are its \<open>data\<close>; for a chunk's \<open>ImageBitmap\<close>, whose pixels can
  only be observed through a canvas, they are the bytes \<open>getImageData\<close> returns for it.
\<close>

record bitmap =
  bmWidth :: nat
  bmHeight :: nat
  bmData :: "int list"

text \<open>An entry of \<open>colorIndexTiles\<close>: \<open>{ w, h, data }\<close>.\<close>

record indexTile =
  itW :: nat
  itH :: nat
  itData :: "nat list"

text \<open>
  The fields of a \<open>Template\<close> instance. Objects used as dictionaries are association
  lists in insertion order, which is the order \<open>Object.keys\<close> enumerates tile keys in.
  \<open>imageFile\<close> is the field \<open>file\<close>, with \<open>None\<close> for a file that \<open>createImageBitmap\<close> cannot decode; \<open>coords = None\<close>
  is the constructor's \<open>null\<close>. The four variant maps are \<open>undefined\<close> (\<open>None\<close>) on an
  imported template. \<open>chunked\<close> is assigned before a template is pushed to the manager's
  array (by \<open>createTemplate\<close> and by \<open>#parseBlueMarble\<close>), so it is never \<open>null\<close> there;
  \<open>colorIndexTiles\<close> is set to \<open>{}\<close> by the constructor.
\<close>

record template =
  displayName :: string
  sortID :: nat
  authorID :: string
  imageFile :: "bitmap option"
  coords :: "(int \<times> int \<times> int \<times> int) option"
  chunked :: "(string \<times> bitmap) list"
  chunkedOriginal :: "(string \<times> bitmap) list option"
  chunkedAuto :: "(string \<times> bitmap) list option"
  chunkedOriginalFull :: "(string \<times> bitmap) list option"
  chunkedAutoFull :: "(string \<times> bitmap) list option"
  autoColor :: bool
  tileSize :: int
  pixelCount :: nat
  colorIndexTiles :: "(string \<times> indexTile) list"
  enabled :: bool
  idKey :: string

text \<open>
  What the code takes from outside \<open>src/\<close>: the palette and \<open>numberToEncoded\<close> of
  \<open>./utils\<close>, and the canvas pipeline of the two render helpers and of the export
  (\<open>convertToBlob\<close>, \<open>arrayBuffer\<close>, \<open>uint8ToBase64\<close>), which are functions of the region's
  image data. \<open>canvasRoundTrip\<close> is what the browser's canvas returns for a pixel of
  partial alpha after storing it premultiplied; its rounding is the browser's.
\<close>

record services =
  colorpalette :: palette
  numberToEncoded :: "nat \<Rightarrow> string \<Rightarrow> string"
  renderToBitmap :: "bitmap \<Rightarrow> bitmap"
  renderToBitmapNoMask :: "bitmap \<Rightarrow> bitmap"
  exportBuffer :: "bitmap \<Rightarrow> string"
  canvasRoundTrip :: "int list \<Rightarrow> int list"

text \<open>\<open>new Template({...})\<close> with the constructor's defaults for the fields not passed.\<close>

definition newTemplate :: "string \<Rightarrow> nat \<Rightarrow> string \<Rightarrow> bitmap option
    \<Rightarrow> (int \<times> int \<times> int \<times> int) option \<Rightarrow> bool \<Rightarrow> bool \<Rightarrow> string \<Rightarrow> template" where
  "newTemplate dn sid aid f cs ac en key =
     \<lparr>displayName = dn, sortID = sid, authorID = aid, imageFile = f, coords = cs, chunked = [],
      chunkedOriginal = None, chunkedAuto = None, chunkedOriginalFull = None,
      chunkedAutoFull = None, autoColor = ac, tileSize = 1000, pixelCount = 0,
      colorIndexTiles = [], enabled = en, idKey = key\<rparr>"

text \<open>
  \<open>Math.min(tileSize - (pixel % tileSize), extent - (pixel - origin))\<close>; NaN (\<open>None\<close>) when
  \<open>tileSize\<close> is 0.
\<close>

definition drawSize :: "int \<Rightarrow> int \<Rightarrow> int \<Rightarrow> int \<Rightarrow> int option" where
  "drawSize ts pixel extent origin =
     (if ts = 0 then None else Some (min (ts - jsRem pixel ts) (extent - (pixel - origin))))"

text \<open>
  Assigning \<open>smallCanvas.width = drawSizeX\<close>, \<open>smallCanvas.height = drawSizeY\<close> and reading
  the region with \<open>getImageData\<close>: NaN or a negative size throws \<open>TypeError\<close>, an empty
  rectangle throws \<open>IndexSizeError\<close>.
\<close>

definition canvasSizes :: "int option \<Rightarrow> int option \<Rightarrow> error + int \<times> int" where
  "canvasSizes drawSizeX drawSizeY =
     (case drawSizeX of
        None \<Rightarrow> Inl TypeError
      | Some dx \<Rightarrow>
          if dx < 0 then Inl TypeError
          else (case drawSizeY of
                  None \<Rightarrow> Inl TypeError
                | Some dy \<Rightarrow>
                    if dy < 0 then Inl TypeError
                    else if dx = 0 \<or> dy = 0 then Inl IndexSizeError
                    else Inr (dx, dy)))"

text \<open>The four bytes of the bitmap's pixel \<open>(x, y)\<close>.\<close>

definition pixelAt :: "bitmap \<Rightarrow> nat \<Rightarrow> nat \<Rightarrow> int list" where
  "pixelAt bmp x y =
     (let p = (y * bmWidth bmp + x) * 4
      in [bmData bmp ! p, bmData bmp ! (p + 1), bmData bmp ! (p + 2), bmData bmp ! (p + 3)])"

text \<open>
  What a canvas returns for a pixel of the decoded file that was drawn onto it. The
  bitmap and the canvas hold colours premultiplied by alpha: an opaque pixel comes back
  unchanged, a fully transparent pixel comes back as transparent black whatever its
  colour was, and a pixel of partial alpha comes back as the browser rounds it.
\<close>

definition readBack :: "services \<Rightarrow> int list \<Rightarrow> int list" where
  "readBack sv px =
     (if px ! 3 = 255 then px
      else if px ! 3 = 0 then [0, 0, 0, 0]
      else canvasRoundTrip sv px)"

text \<open>
  \<open>drawImage(bitmap, sx, sy, w, h, 0, 0, w, h)\<close> followed by \<open>getImageData(0, 0, w, h).data\<close>:
  the bytes read back for the \<open>w\<close> by \<open>h\<close> crop whose top-left source pixel is
  \<open>(sx, sy)\<close>; byte \<open>i\<close> is channel \<open>i mod 4\<close> of the crop's pixel number \<open>i div 4\<close> in
  row-major order.
\<close>

definition getImageData :: "services \<Rightarrow> bitmap \<Rightarrow> nat \<Rightarrow> nat \<Rightarrow> nat \<Rightarrow> nat \<Rightarrow> int list" where
  "getImageData sv bmp sx sy w h =
     map (\<lambda>i. readBack sv (pixelAt bmp (sx + (i div 4) mod w) (sy + (i div 4) div w)) ! (i mod 4))
       [0..<4 * (w * h)]"

text \<open>A store into a \<open>Uint8ClampedArray\<close> clamps an integer to 0..255.\<close>

definition clamp8 :: "int \<Rightarrow> int" where
  "clamp8 v = max 0 (min 255 v)"

text \<open>
  The body of the per-pixel loops (lines 179 to 204) on the three arrays \<open>orig\<close>,
  \<open>mapped\<close> and \<open>idxMap\<close>; \<open>src\<close> is only read. \<open>idxMap\<close> is a \<open>Uint8Array\<close>, whose store
  wraps modulo 256.
\<close>

definition pixelStep ::
  "palette \<Rightarrow> int list \<Rightarrow> nat \<Rightarrow> nat \<Rightarrow> nat
     \<Rightarrow> int list \<times> int list \<times> nat list \<Rightarrow> int list \<times> int list \<times> nat list" where
  "pixelStep pal src drawSizeX y x bufs =
     (case bufs of (orig, mapped, idxMap) \<Rightarrow>
        (let p = (y * drawSizeX + x) * 4;
             r = src ! p; g = src ! (p + 1); b = src ! (p + 2);
             a = src ! (p + 3)
         in if r = 222 \<and> g = 250 \<and> b = 206 then
              (if (x + y) mod 2 = 0 then
                 (orig[p := 0, p + 1 := 0, p + 2 := 0, p + 3 := 32],
                  mapped[p := 0, p + 1 := 0, p + 2 := 0, p + 3 := 32],
                  idxMap[y * drawSizeX + x := 0])
               else
                 (orig[p + 3 := 0], mapped[p + 3 := 0], idxMap[y * drawSizeX + x := 0]))
            else if a \<noteq> 0 then
              (case nearestPaletteRGB pal r g b of (nr, ng, nb) \<Rightarrow>
                 (orig[p := r, p + 1 := g, p + 2 := b, p + 3 := 255],
                  mapped[p := clamp8 nr, p + 1 := clamp8 ng, p + 2 := clamp8 nb, p + 3 := 255],
                  idxMap[y * drawSizeX + x := nearestPaletteIndex pal r g b mod 256]))
            else (orig, mapped, idxMap[y * drawSizeX + x := 0])))"

text \<open>
  Lines 172 to 206: \<open>orig\<close> and \<open>mapped\<close> start as copies of \<open>src\<close>, \<open>idxMap\<close> as zeros,
  and the loops visit \<open>y\<close> then \<open>x\<close>.
\<close>

definition processPixels ::
  "palette \<Rightarrow> int list \<Rightarrow> nat \<Rightarrow> nat \<Rightarrow> int list \<times> int list \<times> nat list" where
  "processPixels pal src drawSizeX drawSizeY =
     fold (\<lambda>y. fold (\<lambda>x. pixelStep pal src drawSizeX y x) [0..<drawSizeX]) [0..<drawSizeY]
       (src, src, replicate (drawSizeX * drawSizeY) 0)"

text \<open>Lines 241 to 247: the key of a region, with the literal 1000 of the source.\<close>

definition templateTileName :: "int \<Rightarrow> int \<Rightarrow> int \<Rightarrow> int \<Rightarrow> string" where
  "templateTileName c0 c1 pixelX pixelY =
     padStart 4 CHR ''0'' (toString (c0 + pixelX div 1000)) @ '','' @
     padStart 4 CHR ''0'' (toString (c1 + pixelY div 1000)) @ '','' @
     padStart 3 CHR ''0'' (toString (jsRem pixelX 1000)) @ '','' @
     padStart 3 CHR ''0'' (toString (jsRem pixelY 1000))"

text \<open>
  What one iteration of the inner loop produces: the key, the crop's position in the
  image and its size, and the three processed arrays.
\<close>

record region =
  regKey :: string
  regX :: int
  regY :: int
  regW :: int
  regH :: int
  regOrig :: "int list"
  regMapped :: "int list"
  regIdx :: "nat list"

definition tileBody ::
  "services \<Rightarrow> int \<times> int \<times> int \<times> int \<Rightarrow> bitmap \<Rightarrow> int \<Rightarrow> int \<Rightarrow> int \<Rightarrow> int \<Rightarrow> region" where
  "tileBody sv cs bmp pixelX pixelY drawSizeX drawSizeY =
     (case cs of (c0, c1, c2, c3) \<Rightarrow>
        (let src = getImageData sv bmp (nat (pixelX - c2)) (nat (pixelY - c3))
                     (nat drawSizeX) (nat drawSizeY)
         in case processPixels (colorpalette sv) src (nat drawSizeX) (nat drawSizeY) of
              (orig, mapped, idxMap) \<Rightarrow>
                \<lparr>regKey = templateTileName c0 c1 pixelX pixelY,
                 regX = pixelX - c2, regY = pixelY - c3,
                 regW = drawSizeX, regH = drawSizeY,
                 regOrig = orig, regMapped = mapped, regIdx = idxMap\<rparr>))"

text \<open>
  The inner loop (line 141), from \<open>pixelX\<close> on, for a row that starts at \<open>pixelY\<close> and has
  height \<open>drawSizeY\<close>. The regions are listed in the order they are produced.
\<close>

function loopX ::
  "services \<Rightarrow> int \<Rightarrow> int \<times> int \<times> int \<times> int \<Rightarrow> bitmap \<Rightarrow> int \<Rightarrow> int option \<Rightarrow> int
     \<Rightarrow> error + region list" where
  "loopX sv ts cs bmp pixelY drawSizeY pixelX =
     (if pixelX < int (bmWidth bmp) + fst (snd (snd cs)) then
        (case canvasSizes (drawSize ts pixelX (int (bmWidth bmp)) (fst (snd (snd cs)))) drawSizeY of
           Inl e \<Rightarrow> Inl e
         | Inr d \<Rightarrow>
             (case loopX sv ts cs bmp pixelY drawSizeY (pixelX + fst d) of
                Inl e \<Rightarrow> Inl e
              | Inr rest \<Rightarrow> Inr (tileBody sv cs bmp pixelX pixelY (fst d) (snd d) # rest)))
      else Inr [])"
  by pat_completeness auto
termination
  by (relation "measure (\<lambda>(sv, ts, cs, bmp, pixelY, drawSizeY, pixelX).
                  nat (int (bmWidth bmp) + fst (snd (snd cs)) - pixelX))")
     (auto simp: canvasSizes_def split: option.splits if_splits)

text \<open>
  The outer loop (line 131). When the inner loop has at least one iteration, an unusable
  \<open>drawSizeY\<close> throws there. With an empty inner range nothing throws: a NaN
  \<open>drawSizeY\<close> makes \<open>pixelY\<close> NaN and ends the loop, and a \<open>drawSizeY\<close> that is not
  positive never moves \<open>pixelY\<close> past the bound, so the source does not return
  (\<open>Diverges\<close>). A decoded bitmap has a positive width, so neither case is reachable from
  \<open>createTemplateTiles\<close>.
\<close>

function loopY ::
  "services \<Rightarrow> int \<Rightarrow> int \<times> int \<times> int \<times> int \<Rightarrow> bitmap \<Rightarrow> int \<Rightarrow> error + region list" where
  "loopY sv ts cs bmp pixelY =
     (if pixelY < int (bmHeight bmp) + snd (snd (snd cs)) then
        (let drawSizeY = drawSize ts pixelY (int (bmHeight bmp)) (snd (snd (snd cs)))
         in case loopX sv ts cs bmp pixelY drawSizeY (fst (snd (snd cs))) of
              Inl e \<Rightarrow> Inl e
            | Inr row \<Rightarrow>
                (case drawSizeY of
                   None \<Rightarrow> Inr row
                 | Some dy \<Rightarrow>
                     if dy \<le> 0 then Inl Diverges
                     else (case loopY sv ts cs bmp (pixelY + dy) of
                             Inl e \<Rightarrow> Inl e
                           | Inr rest \<Rightarrow> Inr (row @ rest))))
      else Inr [])"
  by pat_completeness auto
termination
  by (relation "measure (\<lambda>(sv, ts, cs, bmp, pixelY).
                  nat (int (bmHeight bmp) + snd (snd (snd cs)) - pixelY))")
     (auto simp: drawSize_def split: if_splits)

declare loopX.simps [simp del] loopY.simps [simp del]

text \<open>
  \<open>createImageBitmap(this.file)\<close>: rejects for an undecodable file; a decoded bitmap has
  positive width and height. The bitmap is represented by the file's pixels; what the
  code sees of them, through the working canvas, is \<open>readBack\<close> of each.
\<close>

definition createImageBitmap :: "bitmap option \<Rightarrow> error + bitmap" where
  "createImageBitmap f =
     (case f of
        None \<Rightarrow> Inl DecodeFailure
      | Some bmp \<Rightarrow> if bmWidth bmp = 0 \<or> bmHeight bmp = 0 then Inl DecodeFailure else Inr bmp)"

text \<open>
  The regions of one slicing run: the two loops of \<open>createTemplateTiles\<close> on the decoded
  file. \<open>this.coords[3]\<close> on \<open>null\<close> coordinates throws \<open>TypeError\<close>.
\<close>

definition sliceRegions :: "services \<Rightarrow> template \<Rightarrow> error + region list" where
  "sliceRegions sv t =
     (case createImageBitmap (imageFile t) of
        Inl e \<Rightarrow> Inl e
      | Inr bmp \<Rightarrow>
          (case coords t of
             None \<Rightarrow> Inl TypeError
           | Some cs \<Rightarrow> loopY sv (tileSize t) cs bmp (snd (snd (snd cs)))))"

text \<open>The five dictionaries \<open>createTemplateTiles\<close> returns.\<close>

record templateTilesResult =
  templateTiles :: "(string \<times> bitmap) list"
  templateTilesAuto :: "(string \<times> bitmap) list"
  templateTilesFull :: "(string \<times> bitmap) list"
  templateTilesAutoFull :: "(string \<times> bitmap) list"
  templateTilesBuffers :: "(string \<times> string) list"

text \<open>The image data of a region's \<open>orig\<close> and \<open>mapped\<close> arrays.\<close>

definition origImageData :: "region \<Rightarrow> bitmap" where
  "origImageData rg = \<lparr>bmWidth = nat (regW rg), bmHeight = nat (regH rg), bmData = regOrig rg\<rparr>"

definition mappedImageData :: "region \<Rightarrow> bitmap" where
  "mappedImageData rg = \<lparr>bmWidth = nat (regW rg), bmHeight = nat (regH rg), bmData = regMapped rg\<rparr>"

text \<open>
  Lines 249 to 280: the stores one region makes into \<open>colorIndexTiles\<close> and into the five
  dictionaries. An assignment \<open>obj[key] = v\<close> replaces the value of an existing key in
  place and appends a new key.
\<close>

definition storeRegion ::
  "services \<Rightarrow> region \<Rightarrow> templateTilesResult \<times> (string \<times> indexTile) list
     \<Rightarrow> templateTilesResult \<times> (string \<times> indexTile) list" where
  "storeRegion sv rg acc =
     (case acc of (res, idx) \<Rightarrow>
        (res\<lparr>templateTiles := AList.update (regKey rg) (renderToBitmap sv (origImageData rg)) (templateTiles res),
             templateTilesFull := AList.update (regKey rg) (renderToBitmapNoMask sv (origImageData rg)) (templateTilesFull res),
             templateTilesAuto := AList.update (regKey rg) (renderToBitmap sv (mappedImageData rg)) (templateTilesAuto res),
             templateTilesAutoFull := AList.update (regKey rg) (renderToBitmapNoMask sv (mappedImageData rg)) (templateTilesAutoFull res),
             templateTilesBuffers := AList.update (regKey rg) (exportBuffer sv (origImageData rg)) (templateTilesBuffers res)\<rparr>,
         AList.update (regKey rg)
           \<lparr>itW = nat (regW rg), itH = nat (regH rg), itData = regIdx rg\<rparr> idx))"

text \<open>
  \<open>createTemplateTiles\<close>: the dictionaries and the template with \<open>pixelCount\<close> and
  \<open>colorIndexTiles\<close> assigned. An exception leaves the caller without a result.
\<close>

definition createTemplateTiles ::
  "services \<Rightarrow> template \<Rightarrow> error + templateTilesResult \<times> template" where
  "createTemplateTiles sv t =
     (case sliceRegions sv t of
        Inl e \<Rightarrow> Inl e
      | Inr regions \<Rightarrow>
          (case fold (storeRegion sv) regions
                  (\<lparr>templateTiles = [], templateTilesAuto = [], templateTilesFull = [],
                    templateTilesAutoFull = [], templateTilesBuffers = []\<rparr>, colorIndexTiles t) of
             (res, idx) \<Rightarrow>
               Inr (res, t\<lparr>pixelCount := (case imageFile t of None \<Rightarrow> 0
                                             | Some bmp \<Rightarrow> bmWidth bmp * bmHeight bmp),
                           colorIndexTiles := idx\<rparr>)))"

section \<open>Class TemplateManager\<close>

text \<open>The persisted JSON object: one record per template under its \<open>idKey\<close>.\<close>

record templateJSON =
  jsonName :: string
  jsonCoords :: "string option"
  jsonEnabled :: "bool option"
  jsonTiles :: "(string \<times> string) list"

record templatesJSONObject =
  whoami :: string
  scriptVersion :: string
  schemaVersion :: string
  templates :: "(string \<times> templateJSON) list"

text \<open>
  A tile image: the blob fetched from the site, or the canvas on which the fetched tile
  and then a sequence of \<open>drawImage\<close> calls were drawn. A call is recorded with its
  bitmap, its destination offset and the \<open>globalAlpha\<close> in force.
\<close>

record drawOp =
  opBitmap :: bitmap
  opX :: int
  opY :: int
  opAlpha :: real

datatype blob = Fetched "nat list" | Merged blob "drawOp list"

text \<open>
  The fields of the manager that the modelled methods read or write, and the userscript
  storage as the list of values written by \<open>GM.setValue('bmTemplates', ...)\<close>, oldest
  first; a write records the JSON object that is stringified. \<open>managerTileSize\<close> is the
  manager's field \<open>tileSize\<close>. The status overlay is an output only and is left out.
\<close>

record templateManager =
  name :: string
  version :: string
  templatesVersion :: string
  userID :: "nat option"
  encodingBase :: string
  managerTileSize :: int
  drawMult :: nat
  templatesArray :: "template list"
  templatesJSON :: "templatesJSONObject option"
  templatesShouldBeDrawn :: bool
  autoColorLive :: bool
  mergedTileCache :: "(string \<times> blob) list"
  cacheVersion :: nat
  maxTemplates :: nat
  zoomOpacity :: real
  isZoomedOut :: bool
  gmWrites :: "templatesJSONObject option list"

text \<open>\<open>createJSON\<close>; \<open>name.replace(' ', '')\<close> removes the first space.\<close>

definition createJSON :: "templateManager \<Rightarrow> templatesJSONObject" where
  "createJSON m =
     \<lparr>whoami = remove1 CHR '' '' (name m), scriptVersion = version m,
      schemaVersion = templatesVersion m, templates = []\<rparr>"

text \<open>\<open>#storeTemplates\<close>.\<close>

definition storeTemplates :: "templateManager \<Rightarrow> templateManager" where
  "storeTemplates m = m\<lparr>gmWrites := gmWrites m @ [templatesJSON m]\<rparr>"

text \<open>\<open>let nextSortID = 0; while (usedSortIDs.has(nextSortID)) { nextSortID++; }\<close> from \<open>n\<close> on.\<close>

function nextSortID :: "nat list \<Rightarrow> nat \<Rightarrow> nat" where
  "nextSortID usedSortIDs n = (if n \<in> set usedSortIDs then nextSortID usedSortIDs (Suc n) else n)"
  by pat_completeness auto
termination
  by (relation "measure (\<lambda>(ids, n). Suc (Max (set ids)) - n)")
     (auto simp: Suc_diff_le)

declare nextSortID.simps [simp del]

text \<open>\<open>coords.join(', ')\<close>.\<close>

definition joinCoords :: "int \<times> int \<times> int \<times> int \<Rightarrow> string" where
  "joinCoords cs = (case cs of (c0, c1, c2, c3) \<Rightarrow>
     toString c0 @ '', '' @ toString c1 @ '', '' @ toString c2 @ '', '' @ toString c3)"

text \<open>
  \<open>createTemplate(blob, name, coords, autoColor)\<close>. The result pairs the outcome
  (\<open>None\<close> when the method runs to its end) with the manager afterwards.
\<close>

definition createTemplate ::
  "services \<Rightarrow> templateManager \<Rightarrow> bitmap option \<Rightarrow> string \<Rightarrow> int \<times> int \<times> int \<times> int \<Rightarrow> bool
     \<Rightarrow> error option \<times> templateManager" where
  "createTemplate sv m0 blob nm cs autoCol =
     (let m = (case templatesJSON m0 of
                 None \<Rightarrow> m0\<lparr>templatesJSON := Some (createJSON m0)\<rparr>
               | Some j \<Rightarrow> m0)
      in if length (templatesArray m) \<ge> maxTemplates m then (Some CapacityExceeded, m)
         else
           (let sid = nextSortID (map sortID (templatesArray m)) 0;
                aid = numberToEncoded sv (case userID m of None \<Rightarrow> 0 | Some u \<Rightarrow> u) (encodingBase m);
                t0 = newTemplate nm sid aid blob (Some cs) autoCol True [];
                t1 = t0\<lparr>idKey := toString (int (sortID t0)) @ '' '' @ authorID t0\<rparr>
            in case createTemplateTiles sv t1 of
                 Inl e \<Rightarrow> (Some e, m)
               | Inr (tiles, t2) \<Rightarrow>
                   (let t3 = t2\<lparr>chunkedOriginal := Some (templateTiles tiles),
                                chunkedAuto := Some (templateTilesAuto tiles),
                                chunkedOriginalFull := Some (templateTilesFull tiles),
                                chunkedAutoFull := Some (templateTilesAutoFull tiles),
                                chunked := (if autoColorLive m \<or> autoCol then templateTilesAuto tiles
                                            else templateTiles tiles)\<rparr>;
                        j = (case templatesJSON m of None \<Rightarrow> createJSON m | Some j \<Rightarrow> j);
                        j' = j\<lparr>templates := AList.update (idKey t3)
                                  \<lparr>jsonName = displayName t3, jsonCoords = Some (joinCoords cs),
                                   jsonEnabled = Some True, jsonTiles = templateTilesBuffers tiles\<rparr>
                                  (templates j)\<rparr>
                    in (None, storeTemplates
                                (m\<lparr>templatesJSON := Some j',
                                   templatesArray := templatesArray m @ [t3],
                                   cacheVersion := cacheVersion m + 1,
                                   mergedTileCache := []\<rparr>)))))"

text \<open>The key both lookups compare with: \<open>x?.idKey || `${x?.sortID} ${x?.authorID}`\<close>.\<close>

definition keyOf :: "template \<Rightarrow> string" where
  "keyOf x = (if idKey x \<noteq> [] then idKey x else toString (int (sortID x)) @ '' '' @ authorID x)"

text \<open>Assigning \<open>t.enabled\<close> on the object \<open>find\<close> returned: the first match in the array.\<close>

fun setFirstEnabled :: "string \<Rightarrow> bool \<Rightarrow> template list \<Rightarrow> template list" where
  "setFirstEnabled k en [] = []"
| "setFirstEnabled k en (x # xs) =
     (if keyOf x = k then x\<lparr>enabled := en\<rparr> # xs else x # setFirstEnabled k en xs)"

text \<open>\<open>setTemplateEnabled(idKey, enabled)\<close>.\<close>

definition setTemplateEnabled :: "templateManager \<Rightarrow> string \<Rightarrow> bool \<Rightarrow> templateManager" where
  "setTemplateEnabled m k en =
     (case find (\<lambda>x. keyOf x = k) (templatesArray m) of
        None \<Rightarrow> m
      | Some t \<Rightarrow>
          (let m1 = m\<lparr>templatesArray := setFirstEnabled k en (templatesArray m)\<rparr>;
               m2 = (case templatesJSON m1 of
                       None \<Rightarrow> m1
                     | Some j \<Rightarrow>
                         (case map_of (templates j) k of
                            None \<Rightarrow> m1
                          | Some e \<Rightarrow>
                              m1\<lparr>templatesJSON :=
                                   Some (j\<lparr>templates :=
                                            AList.update k (e\<lparr>jsonEnabled := Some en\<rparr>) (templates j)\<rparr>)\<rparr>))
           in storeTemplates (m2\<lparr>cacheVersion := cacheVersion m2 + 1, mergedTileCache := []\<rparr>)))"

text \<open>\<open>removeTemplate(idKey)\<close>.\<close>

definition removeTemplate :: "templateManager \<Rightarrow> string \<Rightarrow> templateManager" where
  "removeTemplate m k =
     (let beforeLen = length (templatesArray m);
          m1 = m\<lparr>templatesArray := filter (\<lambda>x. keyOf x \<noteq> k) (templatesArray m)\<rparr>;
          m2 = (if beforeLen \<noteq> length (templatesArray m1) then
                  (case templatesJSON m1 of
                     None \<Rightarrow> m1
                   | Some j \<Rightarrow>
                       (case map_of (templates j) k of
                          None \<Rightarrow> m1
                        | Some e \<Rightarrow>
                            m1\<lparr>templatesJSON := Some (j\<lparr>templates := AList.delete k (templates j)\<rparr>)\<rparr>))
                else m1)
      in storeTemplates (m2\<lparr>cacheVersion := cacheVersion m2 + 1, mergedTileCache := []\<rparr>))"

subsection \<open>Compositing templates onto a tile\<close>

text \<open>Lines 306 to 311: the two maps the callback computes for a template.\<close>

definition sourceMap :: "templateManager \<Rightarrow> template \<Rightarrow> (string \<times> bitmap) list" where
  "sourceMap m t =
     (if autoColorLive m then (case chunkedAuto t of Some c \<Rightarrow> c | None \<Rightarrow> chunked t)
      else (case chunkedOriginal t of Some c \<Rightarrow> c | None \<Rightarrow> chunked t))"

definition sourceMapFull :: "templateManager \<Rightarrow> template \<Rightarrow> (string \<times> bitmap) list" where
  "sourceMapFull m t =
     (if autoColorLive m then (case chunkedAutoFull t of Some c \<Rightarrow> c | None \<Rightarrow> sourceMap m t)
      else (case chunkedOriginalFull t of Some c \<Rightarrow> c | None \<Rightarrow> sourceMap m t))"

text \<open>
  The object the callback returns for a matching tile key (lines 315 to 319); the
  constant \<open>sourceMapFull\<close> is computed and not read.
\<close>

record drawEntry =
  entryBitmap :: "bitmap option"
  entryTileCoords :: "string option \<times> string option"
  entryPixelCoords :: "string option \<times> string option"

definition tileEntry :: "templateManager \<Rightarrow> template \<Rightarrow> string \<Rightarrow> drawEntry" where
  "tileEntry m t tile =
     (let cs = split CHR '','' tile;
          sMap = sourceMap m t;
          sMapFull = sourceMapFull m t
      in \<lparr>entryBitmap = map_of sMap tile,
          entryTileCoords = (nthOpt cs 0, nthOpt cs 1),
          entryPixelCoords = (nthOpt cs 2, nthOpt cs 3)\<rparr>)"

text \<open>
  Lines 293 to 323 for one template: the entry of its first matching key, or \<open>null\<close>.
\<close>

definition matchingEntry :: "templateManager \<Rightarrow> string \<Rightarrow> template \<Rightarrow> drawEntry option" where
  "matchingEntry m tileCoords t =
     (let matchingTiles = filter (\<lambda>tile. startsWith tile tileCoords) (map fst (chunked t))
      in case map (tileEntry m t) matchingTiles of [] \<Rightarrow> None | e # _ \<Rightarrow> Some e)"

text \<open>
  Lines 283 to 324: the enabled templates, stably sorted by \<open>sortID\<close>, mapped to their
  entries, with the \<open>null\<close>s filtered out.
\<close>

definition templatesToDraw :: "templateManager \<Rightarrow> string \<Rightarrow> drawEntry list" where
  "templatesToDraw m tileCoords =
     List.map_filter (matchingEntry m tileCoords)
       (sort_key sortID (filter enabled (templatesArray m)))"

text \<open>
  One pass of the loop of lines 370 to 386: \<open>drawImage\<close> of \<open>undefined\<close> throws, and with
  a NaN offset it returns without drawing. Both branches of the zoom test draw
  \<open>template.bitmap\<close> at the same offset; they differ in \<open>globalAlpha\<close>.
\<close>

definition drawOne :: "templateManager \<Rightarrow> bool \<Rightarrow> drawEntry \<Rightarrow> error + drawOp list" where
  "drawOne m localIsZoomedOut e =
     (case entryBitmap e of
        None \<Rightarrow> Inl TypeError
      | Some bmp \<Rightarrow>
          (case (Number (fst (entryPixelCoords e)), Number (snd (entryPixelCoords e))) of
             (Some x, Some y) \<Rightarrow>
               (if localIsZoomedOut then
                  Inr [\<lparr>opBitmap = bmp, opX = x * int (drawMult m), opY = y * int (drawMult m),
                        opAlpha = zoomOpacity m\<rparr>]
                else
                  Inr [\<lparr>opBitmap = bmp, opX = x * int (drawMult m), opY = y * int (drawMult m),
                        opAlpha = 1\<rparr>])
           | _ \<Rightarrow> Inr []))"

fun drawLoop :: "templateManager \<Rightarrow> bool \<Rightarrow> drawEntry list \<Rightarrow> error + drawOp list" where
  "drawLoop m z [] = Inr []"
| "drawLoop m z (e # es) =
     (case drawOne m z e of
        Inl err \<Rightarrow> Inl err
      | Inr ops \<Rightarrow> (case drawLoop m z es of Inl err \<Rightarrow> Inl err | Inr rest \<Rightarrow> Inr (ops @ rest)))"

text \<open>The cache key of line 277.\<close>

definition cacheKeyOf :: "templateManager \<Rightarrow> string \<Rightarrow> string" where
  "cacheKeyOf m tileCoords =
     tileCoords @ ''|'' @ (if autoColorLive m then ''auto'' else ''orig'') @ ''|'' @
     (if isZoomedOut m then ''full'' else ''mask'') @ ''|v'' @ toString (int (cacheVersion m))"

text \<open>Line 267: the padded tile coordinates that the keys are matched against.\<close>

definition tileCoordsKey :: "int \<times> int \<Rightarrow> string" where
  "tileCoordsKey tc =
     padStart 4 CHR ''0'' (toString (fst tc)) @ '','' @ padStart 4 CHR ''0'' (toString (snd tc))"

text \<open>
  \<open>drawTemplateOnTile(tileBlob, tileCoords)\<close> from the manager state that
  \<open>#updateZoomState\<close> leaves at line 273. \<open>localIsZoomedOut\<close> is the value line 367
  computes from the page's canvas scale, a floating-point reading taken as an input. The
  throttled status message is left out.
\<close>

definition drawTemplateOnTile ::
  "templateManager \<Rightarrow> bool \<Rightarrow> blob \<Rightarrow> int \<times> int \<Rightarrow> (error + blob) \<times> templateManager" where
  "drawTemplateOnTile m localIsZoomedOut tileBlob tc =
     (if \<not> templatesShouldBeDrawn m then (Inr tileBlob, m)
      else
        (let tileCoords = tileCoordsKey tc
         in if templatesArray m = [] then (Inr tileBlob, m)
            else
              (case map_of (mergedTileCache m) (cacheKeyOf m tileCoords) of
                 Some cached \<Rightarrow> (Inr cached, m)
               | None \<Rightarrow>
                   (let toDraw = templatesToDraw m tileCoords
                    in if toDraw = [] then (Inr tileBlob, m)
                       else
                         (case drawLoop m localIsZoomedOut toDraw of
                            Inl err \<Rightarrow> (Inl err, m)
                          | Inr ops \<Rightarrow>
                              (let outBlob = Merged tileBlob ops
                               in (Inr outBlob,
                                   m\<lparr>mergedTileCache :=
                                       AList.update (cacheKeyOf m tileCoords) outBlob
                                         (mergedTileCache m)\<rparr>)))))))"

subsection \<open>Lazy reconstruction of an index grid\<close>

text \<open>
  The local \<open>nearestIdx\<close> of \<open>#ensureIndexMapForTemplateTile\<close>: the same scan as
  \<open>#nearestPaletteIndex\<close>.
\<close>

definition nearestIdx :: "palette \<Rightarrow> int \<Rightarrow> int \<Rightarrow> int \<Rightarrow> nat" where
  "nearestIdx pal r g b = fst (fold (indexStep pal r g b) [0..<length pal] (1, None))"

text \<open>\<open>data[i] || 0\<close> and \<open>data[i] | 0\<close>: 0 for a read out of range.\<close>

definition byteOr0 :: "int list \<Rightarrow> nat \<Rightarrow> int" where
  "byteOr0 d i = (case nthOpt d i of None \<Rightarrow> 0 | Some v \<Rightarrow> v)"

text \<open>
  The body of the sampling loops (lines 583 to 592) on \<open>idxMap\<close>, a \<open>Uint16Array\<close> whose
  store wraps modulo 65536.
\<close>

definition sampleStep ::
  "palette \<Rightarrow> bitmap \<Rightarrow> nat \<Rightarrow> nat \<Rightarrow> nat \<Rightarrow> nat \<Rightarrow> nat \<Rightarrow> nat list \<Rightarrow> nat list" where
  "sampleStep pal bmp dm mid w y x idxMap =
     (let sx = x * dm + mid; sy = y * dm + mid;
          p = (sy * bmWidth bmp + sx) * 4;
          a = byteOr0 (bmData bmp) (p + 3)
      in if a = 0 then idxMap[y * w + x := 0]
         else idxMap[y * w + x :=
                nearestIdx pal (byteOr0 (bmData bmp) p) (byteOr0 (bmData bmp) (p + 1))
                  (byteOr0 (bmData bmp) (p + 2)) mod 65536])"

text \<open>
  Lines 549 to 594 of \<open>#ensureIndexMapForTemplateTile\<close>: the grid sampled from a bitmap.
  \<open>Math.round\<close> of the quotient of two positive integers rounds half up.
\<close>

definition buildIndexTile :: "palette \<Rightarrow> templateManager \<Rightarrow> bitmap \<Rightarrow> indexTile" where
  "buildIndexTile pal m bmp =
     (let dm = max 1 (if drawMult m = 0 then 1 else drawMult m);
          w = max 1 ((2 * bmWidth bmp + dm) div (2 * dm));
          h = max 1 ((2 * bmHeight bmp + dm) div (2 * dm));
          mid = dm div 2;
          idxMap = fold (\<lambda>y. fold (\<lambda>x. sampleStep pal bmp dm mid w y x) [0..<w]) [0..<h]
                     (replicate (w * h) 0)
      in \<lparr>itW = w, itH = h, itData = idxMap\<rparr>)"

text \<open>
  \<open>#ensureIndexMapForTemplateTile(tpl, key)\<close>: the template afterwards. A drawing
  context is taken to be available, so nothing in the \<open>try\<close> block throws.
\<close>

definition ensureIndexMapForTemplateTile ::
  "palette \<Rightarrow> templateManager \<Rightarrow> template \<Rightarrow> string \<Rightarrow> template" where
  "ensureIndexMapForTemplateTile pal m tpl key =
     (if key = [] then tpl
      else if map_of (colorIndexTiles tpl) key \<noteq> None then tpl
      else
        (case map_of (chunked tpl) key of
           None \<Rightarrow> tpl
         | Some bmp \<Rightarrow>
             if bmWidth bmp = 0 \<or> bmHeight bmp = 0 then tpl
             else tpl\<lparr>colorIndexTiles :=
                        AList.update key (buildIndexTile pal m bmp) (colorIndexTiles tpl)\<rparr>))"

section \<open>Observations and concrete inputs\<close>

text \<open>
  The \<open>templates\<close> object of the persisted JSON; it has no entries while the JSON object
  has not been created.
\<close>

definition jsonTemplates :: "templateManager \<Rightarrow> (string \<times> templateJSON) list" where
  "jsonTemplates m = (case templatesJSON m of None \<Rightarrow> [] | Some j \<Rightarrow> templates j)"

text \<open>A three-entry palette in the layout of the site's palette.\<close>

definition examplePalette :: palette where
  "examplePalette =
     [\<lparr>pName = ''Transparent'', pRgb = Some (0, 0, 0)\<rparr>,
      \<lparr>pName = ''Black'', pRgb = Some (0, 0, 0)\<rparr>,
      \<lparr>pName = ''White'', pRgb = Some (255, 255, 255)\<rparr>]"

text \<open>
  The four stored variants of a one-pixel red chunk at render factor 3: the masked
  bitmaps keep the centre pixel only, the full bitmaps are solid; the auto-coloured ones
  are black, the nearest colour of \<open>examplePalette\<close>.
\<close>

definition maskedBitmap :: "int \<Rightarrow> int \<Rightarrow> int \<Rightarrow> bitmap" where
  "maskedBitmap r g b =
     \<lparr>bmWidth = 3, bmHeight = 3,
      bmData = [0, 0, 0, 0,  0, 0, 0, 0,  0, 0, 0, 0,
                0, 0, 0, 0,  r, g, b, 255,  0, 0, 0, 0,
                0, 0, 0, 0,  0, 0, 0, 0,  0, 0, 0, 0]\<rparr>"

definition fullBitmap :: "int \<Rightarrow> int \<Rightarrow> int \<Rightarrow> bitmap" where
  "fullBitmap r g b =
     \<lparr>bmWidth = 3, bmHeight = 3,
      bmData = [r, g, b, 255,  r, g, b, 255,  r, g, b, 255,
                r, g, b, 255,  r, g, b, 255,  r, g, b, 255,
                r, g, b, 255,  r, g, b, 255,  r, g, b, 255]\<rparr>"

definition exampleTemplate :: "nat \<Rightarrow> string \<Rightarrow> template" where
  "exampleTemplate sid key =
     (newTemplate ''T'' sid ''a'' None (Some (0, 0, 0, 0)) False True key)
       \<lparr>chunked := [(''0000,0000,000,000'', maskedBitmap 255 0 0)],
        chunkedOriginal := Some [(''0000,0000,000,000'', maskedBitmap 255 0 0)],
        chunkedAuto := Some [(''0000,0000,000,000'', maskedBitmap 0 0 0)],
        chunkedOriginalFull := Some [(''0000,0000,000,000'', fullBitmap 255 0 0)],
        chunkedAutoFull := Some [(''0000,0000,000,000'', fullBitmap 0 0 0)],
        pixelCount := 1,
        colorIndexTiles := [(''0000,0000,000,000'', \<lparr>itW = 1, itH = 1, itData = [1]\<rparr>)]\<rparr>"

definition exampleJSONEntry :: templateJSON where
  "exampleJSONEntry =
     \<lparr>jsonName = ''T'', jsonCoords = Some ''0, 0, 0, 0'', jsonEnabled = Some True,
      jsonTiles = [(''0000,0000,000,000'', ''iVBORw0KGgo'')]\<rparr>"

text \<open>
  A manager with the constructor's settings that holds one template, with live
  auto-colour switched off and one merged tile in its cache.
\<close>

definition exampleManager :: templateManager where
  "exampleManager =
     \<lparr>name = ''Blue Marble'', version = ''0.82.1'', templatesVersion = ''1.0.0'',
      userID = None, encodingBase = ''!#$%'', managerTileSize = 1000, drawMult = 3,
      templatesArray = [exampleTemplate 0 ''0 a''],
      templatesJSON = Some \<lparr>whoami = ''BlueMarble'', scriptVersion = ''0.82.1'',
                            schemaVersion = ''1.0.0'', templates = [(''0 a'', exampleJSONEntry)]\<rparr>,
      templatesShouldBeDrawn = True, autoColorLive = False,
      mergedTileCache = [(''0007,0007|orig|full|v1'', Merged (Fetched []) [])],
      cacheVersion = 1, maxTemplates = 10, zoomOpacity = 4 / 10, isZoomedOut = True,
      gmWrites = []\<rparr>"

text \<open>The same manager holding ten templates, the constructor's \<open>maxTemplates\<close>.\<close>

definition fullManager :: templateManager where
  "fullManager =
     exampleManager\<lparr>templatesArray := map (\<lambda>i. exampleTemplate i (toString (int i) @ '' a'')) [0..<10]\<rparr>"

text \<open>
  An imported template: \<open>#parseBlueMarble\<close> assigns \<open>chunked\<close> only, so the variant maps
  and the index grids are missing.
\<close>

definition importedTemplate :: template where
  "importedTemplate =
     (newTemplate ''T'' 0 ''a'' None None False True ''0 a'')
       \<lparr>chunked := [(''0000,0000,000,000'', maskedBitmap 255 255 255)]\<rparr>"

text \<open>
  Stand-ins for the services: the example palette, a constant author code, a canvas
  pipeline that hands the region's image data on unchanged, and a round trip through
  premultiplied alpha that rounds to nearest both ways.
\<close>

definition exampleServices :: services where
  "exampleServices =
     \<lparr>colorpalette = examplePalette, numberToEncoded = (\<lambda>n base. ''a''),
      renderToBitmap = (\<lambda>d. d), renderToBitmapNoMask = (\<lambda>d. d),
      exportBuffer = (\<lambda>d. ''iVBORw0KGgo''),
      canvasRoundTrip =
        (\<lambda>px. map (\<lambda>c. min 255 ((((c * (px ! 3) + 127) div 255) * 255 + (px ! 3) div 2) div (px ! 3)))
                (take 3 px) @ [px ! 3])\<rparr>"

text \<open>
  A palette in which the entry nearest to black in squared Euclidean distance, the second,
  is not the nearest in the sum of absolute differences.
\<close>

definition metricPalette :: palette where
  "metricPalette =
     [\<lparr>pName = ''Dark Red'', pRgb = Some (3, 0, 0)\<rparr>,
      \<lparr>pName = ''Olive'', pRgb = Some (2, 2, 0)\<rparr>]"

text \<open>A palette in which the query \<open>(1, 0, 0)\<close> is equally far from two entries.\<close>

definition tiePalette :: palette where
  "tiePalette =
     [\<lparr>pName = ''Transparent'', pRgb = Some (0, 0, 0)\<rparr>,
      \<lparr>pName = ''Black'', pRgb = Some (0, 0, 0)\<rparr>,
      \<lparr>pName = ''Dark Red'', pRgb = Some (2, 0, 0)\<rparr>]"

text \<open>
  A region covers the image pixel \<open>(x, y)\<close> when the pixel lies in its rectangle.
\<close>

definition covers :: "region \<Rightarrow> int \<Rightarrow> int \<Rightarrow> bool" where
  "covers rg x y = (regX rg \<le> x \<and> x < regX rg + regW rg \<and> regY rg \<le> y \<and> y < regY rg + regH rg)"

text \<open>
  A region is well placed when its rectangle is non-empty and inside the image, its
  extents are the values \<open>drawSize\<close> computes at its corner, and it is the loop body's
  result there.
\<close>

definition wellPlaced :: "services \<Rightarrow> int \<Rightarrow> int \<times> int \<times> int \<times> int \<Rightarrow> bitmap \<Rightarrow> region \<Rightarrow> bool" where
  "wellPlaced sv ts cs bmp rg =
     (0 \<le> regX rg \<and> regX rg + regW rg \<le> int (bmWidth bmp) \<and> 0 < regW rg
      \<and> 0 \<le> regY rg \<and> regY rg + regH rg \<le> int (bmHeight bmp) \<and> 0 < regH rg
      \<and> drawSize ts (regX rg + fst (snd (snd cs))) (int (bmWidth bmp)) (fst (snd (snd cs))) = Some (regW rg)
      \<and> drawSize ts (regY rg + snd (snd (snd cs))) (int (bmHeight bmp)) (snd (snd (snd cs))) = Some (regH rg)
      \<and> rg = tileBody sv cs bmp (regX rg + fst (snd (snd cs))) (regY rg + snd (snd (snd cs)))
                (regW rg) (regH rg))"

text \<open>
  The part of the three arrays that belongs to pixel number \<open>q\<close> of a region: its four
  bytes in \<open>orig\<close>, its four bytes in \<open>mapped\<close>, and its entry of \<open>idxMap\<close>.
\<close>

definition cell :: "nat \<Rightarrow> int list \<times> int list \<times> nat list \<Rightarrow> int list \<times> int list \<times> nat" where
  "cell q bufs = (case bufs of (orig, mapped, idxMap) \<Rightarrow>
     ([orig ! (q * 4), orig ! (q * 4 + 1), orig ! (q * 4 + 2), orig ! (q * 4 + 3)],
      [mapped ! (q * 4), mapped ! (q * 4 + 1), mapped ! (q * 4 + 2), mapped ! (q * 4 + 3)],
      idxMap ! q))"

definition wellSized :: "nat \<Rightarrow> int list \<times> int list \<times> nat list \<Rightarrow> bool" where
  "wellSized n bufs = (case bufs of (orig, mapped, idxMap) \<Rightarrow>
     length orig = 4 * n \<and> length mapped = 4 * n \<and> length idxMap = n)"

text \<open>The bytes of a region's two output arrays and its index entry at a region-local pixel.\<close>

definition regionCell :: "region \<Rightarrow> nat \<Rightarrow> nat \<Rightarrow> int list \<times> int list \<times> nat" where
  "regionCell rg x y = cell (y * nat (regW rg) + x) (regOrig rg, regMapped rg, regIdx rg)"

text \<open>
  Reading a padded decimal field back: leading zeros are dropped and a minus sign
  negates. It inverts \<open>padStart\<close> after \<open>toString\<close>.
\<close>

definition unpad :: "string \<Rightarrow> int" where
  "unpad s = (case dropWhile (\<lambda>c. c = CHR ''0'') s of
                c # r \<Rightarrow> if c = CHR ''-'' then - int (decimalValue r) else int (decimalValue s)
              | [] \<Rightarrow> int (decimalValue s))"

text \<open>
  The tile key as the specification words it, for a region whose top-left absolute pixel
  coordinate is \<open>(X, Y)\<close>: the anchor tile plus the floor of the coordinate divided by
  \<open>tileSize\<close>, padded to four digits, and the coordinate modulo \<open>tileSize\<close>, padded to
  three digits.
\<close>

definition specTileKey :: "int \<Rightarrow> int \<Rightarrow> int \<Rightarrow> int \<Rightarrow> int \<Rightarrow> string" where
  "specTileKey ts c0 c1 X Y =
     padStart 4 CHR ''0'' (toString (c0 + X div ts)) @ '','' @
     padStart 4 CHR ''0'' (toString (c1 + Y div ts)) @ '','' @
     padStart 3 CHR ''0'' (toString (X mod ts)) @ '','' @
     padStart 3 CHR ''0'' (toString (Y mod ts))"

text \<open>
  A template of a three-by-one image anchored at pixel 999 of tile (5, 7): a white
  pixel and two opaque pixels of the sentinel colour.
\<close>

definition stripBitmap :: bitmap where
  "stripBitmap =
     \<lparr>bmWidth = 3, bmHeight = 1,
      bmData = [255, 255, 255, 255,  222, 250, 206, 255,  222, 250, 206, 255]\<rparr>"

definition stripTemplate :: template where
  "stripTemplate = newTemplate ''strip'' 0 ''a'' (Some stripBitmap) (Some (5, 7, 999, 0)) False True ''0 a''"

text \<open>
  A template of a one-pixel image whose pixel has the sentinel colour and alpha 0.
\<close>

definition ghostBitmap :: bitmap where
  "ghostBitmap = \<lparr>bmWidth = 1, bmHeight = 1, bmData = [222, 250, 206, 0]\<rparr>"

definition ghostTemplate :: template where
  "ghostTemplate = newTemplate ''ghost'' 0 ''a'' (Some ghostBitmap) (Some (0, 0, 0, 0)) False True ''0 a''"

text \<open>
  A template whose tile size is 500: a two-by-one white image anchored at pixel 499, so
  that the image straddles the boundary between the first and the second tile.
\<close>

definition narrowTemplate :: template where
  "narrowTemplate =
     (newTemplate ''narrow'' 0 ''a''
        (Some \<lparr>bmWidth = 2, bmHeight = 1, bmData = [255, 255, 255, 255,  255, 255, 255, 255]\<rparr>)
        (Some (0, 0, 499, 0)) False True ''0 a'')\<lparr>tileSize := 500\<rparr>"

text \<open>
  A key is fresh for the dictionaries built so far when none of them has it; appending
  a list of regions adds, in order, one entry per region to each dictionary.
\<close>

definition freshFor :: "string \<Rightarrow> templateTilesResult \<times> (string \<times> indexTile) list \<Rightarrow> bool" where
  "freshFor k acc = (case acc of (res, idx) \<Rightarrow>
     k \<notin> fst ` set (templateTiles res) \<and> k \<notin> fst ` set (templateTilesAuto res)
     \<and> k \<notin> fst ` set (templateTilesFull res) \<and> k \<notin> fst ` set (templateTilesAutoFull res)
     \<and> k \<notin> fst ` set (templateTilesBuffers res) \<and> k \<notin> fst ` set idx)"

definition appendRegions ::
  "services \<Rightarrow> region list \<Rightarrow> templateTilesResult \<times> (string \<times> indexTile) list
     \<Rightarrow> templateTilesResult \<times> (string \<times> indexTile) list" where
  "appendRegions sv rs acc = (case acc of (res, idx) \<Rightarrow>
     (\<lparr>templateTiles = templateTiles res @ map (\<lambda>rg. (regKey rg, renderToBitmap sv (origImageData rg))) rs,
       templateTilesAuto = templateTilesAuto res @ map (\<lambda>rg. (regKey rg, renderToBitmap sv (mappedImageData rg))) rs,
       templateTilesFull = templateTilesFull res @ map (\<lambda>rg. (regKey rg, renderToBitmapNoMask sv (origImageData rg))) rs,
       templateTilesAutoFull = templateTilesAutoFull res @ map (\<lambda>rg. (regKey rg, renderToBitmapNoMask sv (mappedImageData rg))) rs,
       templateTilesBuffers = templateTilesBuffers res @ map (\<lambda>rg. (regKey rg, exportBuffer sv (origImageData rg))) rs\<rparr>,
      idx @ map (\<lambda>rg. (regKey rg, \<lparr>itW = nat (regW rg), itH = nat (regH rg), itData = regIdx rg\<rparr>)) rs))"

section \<open>The nearest-colour query\<close>

lemma rgbStep_skip: "\<not> searchable c \<Longrightarrow> rgbStep r g b c st = st"
  by (cases "pRgb c") (auto simp: rgbStep_def searchable_def)

lemma fold_rgbStep_filter:
  "fold (rgbStep r g b) pal st = fold (rgbStep r g b) (filter searchable pal) st"
  by (induction pal arbitrary: st) (simp_all add: rgbStep_skip)

lemma rgbStep_searchable:
  "searchable c \<Longrightarrow> rgbStep r g b c st =
     (if lessThanBest (entryDist r g b c) (snd st) then (pRgb c, Some (entryDist r g b c)) else st)"
  by (auto simp: rgbStep_def searchable_def entryDist_def Let_def)

text \<open>
  The loop invariant: after a non-empty run of searchable entries the state holds the
  colour and distance of the first entry of the run that attains the least distance.
\<close>

lemma fold_rgbStep_first_min:
  assumes "cs \<noteq> []" "\<forall>c\<in>set cs. searchable c"
  shows "\<exists>i<length cs.
           fold (rgbStep r g b) cs (None, None) = (pRgb (cs ! i), Some (entryDist r g b (cs ! i)))
         \<and> (\<forall>j<length cs. entryDist r g b (cs ! i) \<le> entryDist r g b (cs ! j))
         \<and> (\<forall>j<i. entryDist r g b (cs ! i) < entryDist r g b (cs ! j))"
  using assms
proof (induction cs rule: rev_induct)
  case Nil
  then show ?case by simp
next
  case (snoc x xs)
  have sx: "searchable x" using snoc.prems by simp
  show ?case
  proof (cases "xs = []")
    case True
    then show ?thesis using sx
      by (simp add: rgbStep_searchable lessThanBest_def)
  next
    case False
    with snoc obtain i where i: "i < length xs"
      and st: "fold (rgbStep r g b) xs (None, None) = (pRgb (xs ! i), Some (entryDist r g b (xs ! i)))"
      and mn: "\<forall>j<length xs. entryDist r g b (xs ! i) \<le> entryDist r g b (xs ! j)"
      and fs: "\<forall>j<i. entryDist r g b (xs ! i) < entryDist r g b (xs ! j)"
      by auto
    show ?thesis
    proof (cases "entryDist r g b x < entryDist r g b (xs ! i)")
      case True
      have "\<forall>j<length xs. entryDist r g b x < entryDist r g b (xs ! j)"
        using True mn by fastforce
      then show ?thesis using True st sx
        by (intro exI[of _ "length xs"])
           (auto simp: rgbStep_searchable lessThanBest_def nth_append less_Suc_eq)
    next
      case False
      then show ?thesis using st sx i mn fs
        by (intro exI[of _ i])
           (auto simp: rgbStep_searchable lessThanBest_def nth_append less_Suc_eq)
    qed
  qed
qed

text \<open>The distance the scan computes for an entry is the squared Euclidean distance.\<close>

lemma entryDist_squared_euclidean:
  "entryDist r g b c =
     (case the (pRgb c) of (pr, pg, pb) \<Rightarrow> (r - pr)\<^sup>2 + (g - pg)\<^sup>2 + (b - pb)\<^sup>2)"
  by (simp add: entryDist_def sqDist_def Let_def power2_eq_square split: prod.splits)

text \<open>
  Claim C7. \<open>#nearestPaletteRGB\<close> scans the entries it does not skip, which are the
  entries not named Transparent when every entry has an \<open>rgb\<close>. With the squared
  Euclidean distance \<open>(r - pr)\<^sup>2 + (g - pg)\<^sup>2 + (b - pb)\<^sup>2\<close> between the query and an
  entry's colour, it returns the RGB of the first of them, in palette order, that attains
  the minimum; with no such entry it returns the input colour.
\<close>

theorem nearestPaletteRGB_first_minimum:
  "(filter searchable pal = [] \<longrightarrow> nearestPaletteRGB pal r g b = (r, g, b))
   \<and> (filter searchable pal \<noteq> [] \<longrightarrow>
        (let d = (\<lambda>c. case the (pRgb c) of
                         (pr, pg, pb) \<Rightarrow> (r - pr)\<^sup>2 + (g - pg)\<^sup>2 + (b - pb)\<^sup>2)
         in \<exists>i<length (filter searchable pal).
              nearestPaletteRGB pal r g b = the (pRgb (filter searchable pal ! i))
            \<and> (\<forall>j<length (filter searchable pal).
                  d (filter searchable pal ! i) \<le> d (filter searchable pal ! j))
            \<and> (\<forall>j<i. d (filter searchable pal ! i) < d (filter searchable pal ! j))))
   \<and> ((\<forall>c\<in>set pal. pRgb c \<noteq> None) \<longrightarrow>
        filter searchable pal = filter (\<lambda>c. pName c \<noteq> ''Transparent'') pal)"
proof (intro conjI impI)
  assume "filter searchable pal = []"
  then show "nearestPaletteRGB pal r g b = (r, g, b)"
    by (simp add: nearestPaletteRGB_def fold_rgbStep_filter [of r g b pal])
next
  let ?cs = "filter searchable pal"
  assume ne: "?cs \<noteq> []"
  have "\<forall>c\<in>set ?cs. searchable c" by simp
  from fold_rgbStep_first_min [OF ne this, of r g b]
  obtain i where i: "i < length ?cs"
    and st: "fold (rgbStep r g b) ?cs (None, None) = (pRgb (?cs ! i), Some (entryDist r g b (?cs ! i)))"
    and mn: "\<forall>j<length ?cs. entryDist r g b (?cs ! i) \<le> entryDist r g b (?cs ! j)"
    and fs: "\<forall>j<i. entryDist r g b (?cs ! i) < entryDist r g b (?cs ! j)"
    by blast
  have "searchable (?cs ! i)" using i nth_mem by fastforce
  then obtain p where p: "pRgb (?cs ! i) = Some p" by (auto simp: searchable_def)
  have "nearestPaletteRGB pal r g b = the (pRgb (?cs ! i))"
    by (simp add: nearestPaletteRGB_def fold_rgbStep_filter [of r g b pal] st p)
  with i mn fs
  have "\<exists>i<length ?cs. nearestPaletteRGB pal r g b = the (pRgb (?cs ! i))
          \<and> (\<forall>j<length ?cs. entryDist r g b (?cs ! i) \<le> entryDist r g b (?cs ! j))
          \<and> (\<forall>j<i. entryDist r g b (?cs ! i) < entryDist r g b (?cs ! j))"
    by blast
  then show "let d = (\<lambda>c. case the (pRgb c) of
                         (pr, pg, pb) \<Rightarrow> (r - pr)\<^sup>2 + (g - pg)\<^sup>2 + (b - pb)\<^sup>2)
         in \<exists>i<length ?cs.
              nearestPaletteRGB pal r g b = the (pRgb (?cs ! i))
            \<and> (\<forall>j<length ?cs. d (?cs ! i) \<le> d (?cs ! j))
            \<and> (\<forall>j<i. d (?cs ! i) < d (?cs ! j))"
    unfolding Let_def entryDist_squared_euclidean .
next
  assume "\<forall>c\<in>set pal. pRgb c \<noteq> None"
  then show "filter searchable pal = filter (\<lambda>c. pName c \<noteq> ''Transparent'') pal"
    by (intro filter_cong) (auto simp: searchable_def)
qed

theorem nearestPaletteRGB_first_minimum_witness:
  "map pName (filter searchable tiePalette) = [''Black'', ''Dark Red'']
   \<and> map (\<lambda>c. case the (pRgb c) of (pr, pg, pb) \<Rightarrow> (1 - pr)\<^sup>2 + (0 - pg)\<^sup>2 + (0 - pb)\<^sup>2)
        (filter searchable tiePalette) = [1 :: int, 1]
   \<and> nearestPaletteRGB tiePalette 1 0 0 = (0, 0, 0)
   \<and> map (\<lambda>c. case the (pRgb c) of (pr, pg, pb) \<Rightarrow> (0 - pr)\<^sup>2 + (0 - pg)\<^sup>2 + (0 - pb)\<^sup>2)
        (filter searchable metricPalette) = [9 :: int, 8]
   \<and> nearestPaletteRGB metricPalette 0 0 0 = (2, 2, 0)
   \<and> filter searchable ([] :: palette) = []
   \<and> nearestPaletteRGB [] 5 6 7 = (5, 6, 7)"
proof -
  note th = nearestPaletteRGB_first_minimum
  have cs: "filter searchable tiePalette
              = [\<lparr>pName = ''Black'', pRgb = Some (0, 0, 0)\<rparr>,
                 \<lparr>pName = ''Dark Red'', pRgb = Some (2, 0, 0)\<rparr>]"
    by (simp add: tiePalette_def searchable_def)
  have ms: "filter searchable metricPalette
              = [\<lparr>pName = ''Dark Red'', pRgb = Some (3, 0, 0)\<rparr>,
                 \<lparr>pName = ''Olive'', pRgb = Some (2, 2, 0)\<rparr>]"
    by (simp add: metricPalette_def searchable_def)
  have ne: "filter searchable tiePalette \<noteq> []" by (simp add: cs)
  have mne: "filter searchable metricPalette \<noteq> []" by (simp add: ms)
  from th [of tiePalette 1 0 0] ne
  obtain i where i: "i < length (filter searchable tiePalette)"
    and v: "nearestPaletteRGB tiePalette 1 0 0 = the (pRgb (filter searchable tiePalette ! i))"
    and fs: "\<forall>j<i. (case the (pRgb (filter searchable tiePalette ! i)) of
                        (pr, pg, pb) \<Rightarrow> (1 - pr)\<^sup>2 + (0 - pg)\<^sup>2 + (0 - pb)\<^sup>2)
                   < (case the (pRgb (filter searchable tiePalette ! j)) of
                        (pr, pg, pb) \<Rightarrow> (1 - pr)\<^sup>2 + (0 - pg)\<^sup>2 + (0 - pb)\<^sup>2)"
    unfolding Let_def by blast
  have "i = 0"
  proof (rule ccontr)
    assume "i \<noteq> 0"
    with i have i1: "i = 1" by (simp add: cs)
    from fs [rule_format, of 0] i1 show False by (simp add: cs)
  qed
  with v have n: "nearestPaletteRGB tiePalette 1 0 0 = (0, 0, 0)" by (simp add: cs)
  from th [of metricPalette 0 0 0] mne
  obtain k where k: "k < length (filter searchable metricPalette)"
    and w: "nearestPaletteRGB metricPalette 0 0 0 = the (pRgb (filter searchable metricPalette ! k))"
    and mn: "\<forall>j<length (filter searchable metricPalette).
                 (case the (pRgb (filter searchable metricPalette ! k)) of
                        (pr, pg, pb) \<Rightarrow> (0 - pr)\<^sup>2 + (0 - pg)\<^sup>2 + (0 - pb)\<^sup>2)
                   \<le> (case the (pRgb (filter searchable metricPalette ! j)) of
                        (pr, pg, pb) \<Rightarrow> (0 - pr)\<^sup>2 + (0 - pg)\<^sup>2 + (0 - pb)\<^sup>2)"
    unfolding Let_def by blast
  have "k = 1"
  proof (rule ccontr)
    assume "k \<noteq> 1"
    with k have k0: "k = 0" by (simp add: ms)
    from mn [rule_format, of 1] k0 show False by (simp add: ms)
  qed
  with w have m: "nearestPaletteRGB metricPalette 0 0 0 = (2, 2, 0)" by (simp add: ms)
  have e: "nearestPaletteRGB [] 5 6 7 = (5, 6, 7)"
    using th [of "[]" 5 6 7] by simp
  show ?thesis using cs ms n m e by simp
qed

section \<open>The registry: capacity, removal, enabling\<close>

text \<open>
  Claim C2. When the array already holds \<open>maxTemplates\<close> templates, \<open>createTemplate\<close>
  ends with \<open>CapacityExceeded\<close>; the template array, the \<open>templates\<close> object of the JSON,
  \<open>cacheVersion\<close> and the merged-tile cache are as before, and nothing is written to the
  store. The one assignment that can precede the check, line 157, creates a JSON object
  with no templates when none exists; where one exists the whole manager is unchanged.
\<close>

theorem createTemplate_capacity_exceeded:
  assumes "maxTemplates m \<le> length (templatesArray m)"
  shows "fst (createTemplate sv m blob nm cs ac) = Some CapacityExceeded
       \<and> templatesArray (snd (createTemplate sv m blob nm cs ac)) = templatesArray m
       \<and> jsonTemplates (snd (createTemplate sv m blob nm cs ac)) = jsonTemplates m
       \<and> cacheVersion (snd (createTemplate sv m blob nm cs ac)) = cacheVersion m
       \<and> mergedTileCache (snd (createTemplate sv m blob nm cs ac)) = mergedTileCache m
       \<and> gmWrites (snd (createTemplate sv m blob nm cs ac)) = gmWrites m
       \<and> (templatesJSON m \<noteq> None \<longrightarrow> snd (createTemplate sv m blob nm cs ac) = m)"
  using assms
  by (cases "templatesJSON m") (simp_all add: createTemplate_def jsonTemplates_def createJSON_def)

theorem createTemplate_capacity_exceeded_witness:
  "maxTemplates fullManager \<le> length (templatesArray fullManager)
   \<and> templatesJSON fullManager \<noteq> None
   \<and> createTemplate exampleServices fullManager (Some (fullBitmap 1 2 3)) ''new'' (0, 0, 0, 0) False
       = (Some CapacityExceeded, fullManager)"
proof -
  have h: "maxTemplates fullManager \<le> length (templatesArray fullManager)"
    by (simp add: fullManager_def exampleManager_def)
  have j: "templatesJSON fullManager \<noteq> None"
    by (simp add: fullManager_def exampleManager_def)
  from createTemplate_capacity_exceeded [OF h, of exampleServices "Some (fullBitmap 1 2 3)" "''new''" "(0, 0, 0, 0)" False] j
  have "fst (createTemplate exampleServices fullManager (Some (fullBitmap 1 2 3)) ''new'' (0, 0, 0, 0) False)
          = Some CapacityExceeded"
    and "snd (createTemplate exampleServices fullManager (Some (fullBitmap 1 2 3)) ''new'' (0, 0, 0, 0) False)
          = fullManager"
    by blast+
  then have "createTemplate exampleServices fullManager (Some (fullBitmap 1 2 3)) ''new'' (0, 0, 0, 0) False
               = (Some CapacityExceeded, fullManager)"
    by (metis prod.collapse)
  with h j show ?thesis by blast
qed

lemma delete_absent: "map_of al k = None \<Longrightarrow> AList.delete k al = al"
  by (induction al) (auto split: if_splits)

lemma removeTemplate_fields:
  "templatesArray (removeTemplate m k) = filter (\<lambda>x. keyOf x \<noteq> k) (templatesArray m)
   \<and> cacheVersion (removeTemplate m k) = cacheVersion m + 1
   \<and> mergedTileCache (removeTemplate m k) = []
   \<and> gmWrites (removeTemplate m k) = gmWrites m @ [templatesJSON (removeTemplate m k)]"
  by (simp add: removeTemplate_def storeTemplates_def Let_def split: option.splits)

lemma removeTemplate_json_miss:
  assumes "\<forall>t\<in>set (templatesArray m). keyOf t \<noteq> k"
  shows "templatesJSON (removeTemplate m k) = templatesJSON m"
proof -
  from assms have "filter (\<lambda>x. keyOf x \<noteq> k) (templatesArray m) = templatesArray m"
    by (simp add: filter_id_conv)
  then show ?thesis
    by (simp add: removeTemplate_def storeTemplates_def Let_def)
qed

lemma removeTemplate_json_hit:
  assumes "\<exists>t\<in>set (templatesArray m). keyOf t = k"
  shows "templatesJSON (removeTemplate m k) =
           map_option (\<lambda>j. j\<lparr>templates := AList.delete k (templates j)\<rparr>) (templatesJSON m)"
proof -
  have "length (filter (\<lambda>x. keyOf x \<noteq> k) (templatesArray m)) \<noteq> length (templatesArray m)"
    using assms by (metis (mono_tags, lifting) filter_id_conv length_filter_less less_irrefl_nat)
  then show ?thesis
    by (cases "templatesJSON m")
       (auto simp: removeTemplate_def storeTemplates_def Let_def delete_absent split: option.splits)
qed

text \<open>
  Claim C3, as stated, fails: on the example manager no template has the key \<open>9 x\<close>, and
  \<open>removeTemplate\<close> still increments \<open>cacheVersion\<close>, empties the merged-tile cache and
  writes to the store.
\<close>

theorem removeTemplate_miss_counterexample:
  "map keyOf (templatesArray exampleManager) = [''0 a'']
   \<and> templatesArray (removeTemplate exampleManager ''9 x'') = templatesArray exampleManager
   \<and> cacheVersion (removeTemplate exampleManager ''9 x'') \<noteq> cacheVersion exampleManager
   \<and> mergedTileCache (removeTemplate exampleManager ''9 x'') \<noteq> mergedTileCache exampleManager
   \<and> gmWrites (removeTemplate exampleManager ''9 x'') \<noteq> gmWrites exampleManager"
  by (simp add: removeTemplate_def storeTemplates_def exampleManager_def exampleTemplate_def
        newTemplate_def keyOf_def Let_def)

text \<open>
  Claim C3, amended. \<open>removeTemplate\<close> removes every template whose key is the given one
  and, when one was removed, deletes the JSON record under that key. On every call, a
  miss included, it increments \<open>cacheVersion\<close>, empties the merged-tile cache and writes
  the JSON object to the store. On a miss the template array and the JSON object are
  unchanged.
\<close>

theorem removeTemplate_effects:
  "templatesArray (removeTemplate m k) = filter (\<lambda>x. keyOf x \<noteq> k) (templatesArray m)
   \<and> cacheVersion (removeTemplate m k) = cacheVersion m + 1
   \<and> mergedTileCache (removeTemplate m k) = []
   \<and> gmWrites (removeTemplate m k) = gmWrites m @ [templatesJSON (removeTemplate m k)]
   \<and> ((\<exists>t\<in>set (templatesArray m). keyOf t = k) \<longrightarrow>
        templatesJSON (removeTemplate m k) =
          map_option (\<lambda>j. j\<lparr>templates := AList.delete k (templates j)\<rparr>) (templatesJSON m))
   \<and> ((\<forall>t\<in>set (templatesArray m). keyOf t \<noteq> k) \<longrightarrow>
        templatesArray (removeTemplate m k) = templatesArray m
        \<and> templatesJSON (removeTemplate m k) = templatesJSON m)"
proof -
  have "(\<forall>t\<in>set (templatesArray m). keyOf t \<noteq> k) \<longrightarrow>
          filter (\<lambda>x. keyOf x \<noteq> k) (templatesArray m) = templatesArray m"
    by (simp add: filter_id_conv)
  then show ?thesis
    using removeTemplate_fields [of m k] removeTemplate_json_miss [of m k]
      removeTemplate_json_hit [of m k]
    by simp
qed

theorem removeTemplate_effects_witness:
  "map keyOf (templatesArray exampleManager) = [''0 a'']
   \<and> templatesArray (removeTemplate exampleManager ''0 a'') = []
   \<and> jsonTemplates (removeTemplate exampleManager ''0 a'') = []
   \<and> cacheVersion (removeTemplate exampleManager ''0 a'') = 2
   \<and> templatesArray (removeTemplate exampleManager ''9 x'') = templatesArray exampleManager
   \<and> templatesJSON (removeTemplate exampleManager ''9 x'') = templatesJSON exampleManager
   \<and> cacheVersion (removeTemplate exampleManager ''9 x'') = 2
   \<and> mergedTileCache (removeTemplate exampleManager ''9 x'') = []"
proof -
  have hit: "\<exists>t\<in>set (templatesArray exampleManager). keyOf t = ''0 a''"
    by (simp add: exampleManager_def exampleTemplate_def newTemplate_def keyOf_def)
  have miss: "\<forall>t\<in>set (templatesArray exampleManager). keyOf t \<noteq> ''9 x''"
    by (simp add: exampleManager_def exampleTemplate_def newTemplate_def keyOf_def)
  have arr: "filter (\<lambda>x. keyOf x \<noteq> ''0 a'') (templatesArray exampleManager) = []"
    by (simp add: exampleManager_def exampleTemplate_def newTemplate_def keyOf_def)
  have js: "map_option (\<lambda>j. j\<lparr>templates := AList.delete ''0 a'' (templates j)\<rparr>)
              (templatesJSON exampleManager)
            = Some \<lparr>whoami = ''BlueMarble'', scriptVersion = ''0.82.1'',
                    schemaVersion = ''1.0.0'', templates = []\<rparr>"
    by (simp add: exampleManager_def)
  have cv: "cacheVersion exampleManager = 1" by (simp add: exampleManager_def)
  have keys: "map keyOf (templatesArray exampleManager) = [''0 a'']"
    by (simp add: exampleManager_def exampleTemplate_def newTemplate_def keyOf_def)
  show ?thesis
    using removeTemplate_effects [of exampleManager "''0 a''"]
      removeTemplate_effects [of exampleManager "''9 x''"] hit miss arr js cv keys
    by (simp add: jsonTemplates_def)
qed

text \<open>
  Claim C10. \<open>setTemplateEnabled\<close> with a key that no loaded template has returns at
  line 808: the manager, and with it every template's \<open>enabled\<close> flag, \<open>cacheVersion\<close>,
  the merged-tile cache and the list of store writes, is unchanged.
\<close>

theorem setTemplateEnabled_miss_unchanged:
  assumes "\<forall>t\<in>set (templatesArray m). keyOf t \<noteq> k"
  shows "setTemplateEnabled m k en = m"
proof -
  from assms have "find (\<lambda>x. keyOf x = k) (templatesArray m) = None"
    by (simp add: find_None_iff)
  then show ?thesis by (simp add: setTemplateEnabled_def)
qed

theorem setTemplateEnabled_miss_unchanged_witness:
  "map keyOf (templatesArray exampleManager) = [''0 a'']
   \<and> setTemplateEnabled exampleManager ''9 x'' False = exampleManager"
proof -
  have miss: "\<forall>t\<in>set (templatesArray exampleManager). keyOf t \<noteq> ''9 x''"
    by (simp add: exampleManager_def exampleTemplate_def newTemplate_def keyOf_def)
  have keys: "map keyOf (templatesArray exampleManager) = [''0 a'']"
    by (simp add: exampleManager_def exampleTemplate_def newTemplate_def keyOf_def)
  from setTemplateEnabled_miss_unchanged [OF miss, of False] keys show ?thesis by blast
qed

section \<open>Lazy index grids\<close>

text \<open>
  Claim C9. Once \<open>colorIndexTiles[key]\<close> is populated, \<open>#ensureIndexMapForTemplateTile\<close>
  for that key returns at line 545 and leaves the template unchanged; hence a second
  call after any first call changes nothing.
\<close>

theorem ensureIndexMap_idempotent:
  "(map_of (colorIndexTiles tpl) key \<noteq> None \<longrightarrow>
      ensureIndexMapForTemplateTile pal m tpl key = tpl)
   \<and> ensureIndexMapForTemplateTile pal m (ensureIndexMapForTemplateTile pal m tpl key) key
       = ensureIndexMapForTemplateTile pal m tpl key"
  by (simp add: ensureIndexMapForTemplateTile_def AList.update_conv' split: option.splits)

lemma upt_0_3: "[0..<3] = [0, 1, 2]"
  by (simp add: upt_rec)

theorem ensureIndexMap_idempotent_witness:
  "map_of (colorIndexTiles
             (ensureIndexMapForTemplateTile examplePalette exampleManager importedTemplate
                ''0000,0000,000,000'')) ''0000,0000,000,000''
     = Some \<lparr>itW = 1, itH = 1, itData = [2]\<rparr>
   \<and> ensureIndexMapForTemplateTile examplePalette exampleManager
        (ensureIndexMapForTemplateTile examplePalette exampleManager importedTemplate
           ''0000,0000,000,000'') ''0000,0000,000,000''
       = ensureIndexMapForTemplateTile examplePalette exampleManager importedTemplate
           ''0000,0000,000,000''"
proof -
  have tile: "buildIndexTile examplePalette exampleManager (maskedBitmap 255 255 255)
                = \<lparr>itW = 1, itH = 1, itData = [2]\<rparr>"
    by (simp add: buildIndexTile_def exampleManager_def maskedBitmap_def sampleStep_def
          byteOr0_def nthOpt_def nearestIdx_def indexStep_def examplePalette_def sqDist_def
          lessThanBest_def Let_def upt_0_3)
  have pop: "map_of (colorIndexTiles
               (ensureIndexMapForTemplateTile examplePalette exampleManager importedTemplate
                  ''0000,0000,000,000'')) ''0000,0000,000,000''
             = Some \<lparr>itW = 1, itH = 1, itData = [2]\<rparr>"
    by (simp add: ensureIndexMapForTemplateTile_def importedTemplate_def newTemplate_def tile)
       (simp add: maskedBitmap_def)
  then have "map_of (colorIndexTiles
               (ensureIndexMapForTemplateTile examplePalette exampleManager importedTemplate
                  ''0000,0000,000,000'')) ''0000,0000,000,000'' \<noteq> None"
    by simp
  with ensureIndexMap_idempotent
         [of "ensureIndexMapForTemplateTile examplePalette exampleManager importedTemplate
                ''0000,0000,000,000''" "''0000,0000,000,000''" examplePalette exampleManager]
    pop
  show ?thesis by blast
qed

section \<open>Compositing: which bitmap is drawn\<close>

lemma drawOne_ops:
  assumes "drawOne m z e = Inr ops" "op \<in> set ops"
  shows "entryBitmap e = Some (opBitmap op) \<and> opAlpha op = (if z then zoomOpacity m else 1)"
  using assms
  by (auto simp: drawOne_def split: option.splits if_splits)

lemma drawLoop_ops:
  assumes "drawLoop m z es = Inr ops" "op \<in> set ops"
  shows "\<exists>e\<in>set es. entryBitmap e = Some (opBitmap op)
                     \<and> opAlpha op = (if z then zoomOpacity m else 1)"
  using assms
proof (induction es arbitrary: ops)
  case Nil
  then show ?case by simp
next
  case (Cons e es)
  from Cons.prems(1) obtain o1 o2 where o1: "drawOne m z e = Inr o1"
    and o2: "drawLoop m z es = Inr o2" and ops: "ops = o1 @ o2"
    by (auto split: sum.splits)
  from Cons.prems(2) ops consider "op \<in> set o1" | "op \<in> set o2" by auto
  then show ?case
  proof cases
    case 1
    with drawOne_ops [OF o1] show ?thesis by simp
  next
    case 2
    with Cons.IH [OF o2] show ?thesis by simp
  qed
qed

lemma matchingEntry_Some:
  assumes "matchingEntry m tk t = Some e"
  shows "\<exists>tile\<in>fst ` set (chunked t). startsWith tile tk \<and> e = tileEntry m t tile"
proof -
  let ?ts = "filter (\<lambda>tile. startsWith tile tk) (map fst (chunked t))"
  from assms obtain tile rest where ts: "?ts = tile # rest" and e: "e = tileEntry m t tile"
    by (cases ?ts) (auto simp: matchingEntry_def Let_def)
  have "tile \<in> set ?ts" by (simp add: ts)
  then have "tile \<in> fst ` set (chunked t)" "startsWith tile tk" by auto
  with e show ?thesis by blast
qed

lemma templatesToDraw_mem:
  assumes "e \<in> set (templatesToDraw m tk)"
  shows "\<exists>t\<in>set (templatesArray m). enabled t
           \<and> (\<exists>tile\<in>fst ` set (chunked t). startsWith tile tk \<and> e = tileEntry m t tile)"
proof -
  from assms obtain t where t: "t \<in> set (sort_key sortID (filter enabled (templatesArray m)))"
    and me: "matchingEntry m tk t = Some e"
    by (auto simp: templatesToDraw_def List.map_filter_def)
  from t have "t \<in> set (templatesArray m)" "enabled t" by auto
  with matchingEntry_Some [OF me] show ?thesis by blast
qed

lemma replicate_small: "replicate 3 c = [c, c, c]" "replicate 2 c = [c, c]"
  by (simp_all add: numeral_3_eq_3 numeral_2_eq_2)

lemma ex_key: "tileCoordsKey (0, 0) = ''0000,0000''"
  by (simp add: tileCoordsKey_def padStart_def toString_def digitsOf.simps digitChar_def replicate_small)

lemma ex_cache: "cacheKeyOf exampleManager ''0000,0000'' = ''0000,0000|orig|full|v1''"
  by (simp add: cacheKeyOf_def exampleManager_def toString_def digitsOf.simps digitChar_def)

lemma ex_split: "split CHR '','' ''0000,0000,000,000'' = [''0000'', ''0000'', ''000'', ''000'']"
  by simp

lemma ex_number: "Number (Some ''000'') = Some 0"
  by (simp add: Number_def isDigit_def decimalValue_def digitVal_def)

lemma ex_toDraw: "templatesToDraw exampleManager ''0000,0000''
   = [\<lparr>entryBitmap = Some (maskedBitmap 255 0 0), entryTileCoords = (Some ''0000'', Some ''0000''),
        entryPixelCoords = (Some ''000'', Some ''000'')\<rparr>]"
  by (simp add: templatesToDraw_def exampleManager_def exampleTemplate_def newTemplate_def
       matchingEntry_def startsWith_def tileEntry_def sourceMap_def nthOpt_def List.map_filter_def)

lemma ex_fields:
  "templatesShouldBeDrawn exampleManager" "templatesArray exampleManager \<noteq> []"
  "map_of (mergedTileCache exampleManager) ''0000,0000|orig|full|v1'' = None"
  "drawMult exampleManager = 3" "zoomOpacity exampleManager = 4 / 10"
  by (simp_all add: exampleManager_def)

lemma ex_draw: "fst (drawTemplateOnTile exampleManager True (Fetched []) (0, 0)) =
  Inr (Merged (Fetched []) [\<lparr>opBitmap = maskedBitmap 255 0 0, opX = 0, opY = 0, opAlpha = 4 / 10\<rparr>])"
  by (simp add: drawTemplateOnTile_def Let_def ex_key ex_cache ex_toDraw drawOne_def ex_number ex_fields)

lemma ex_draw_in: "fst (drawTemplateOnTile exampleManager False (Fetched []) (0, 0)) =
  Inr (Merged (Fetched []) [\<lparr>opBitmap = maskedBitmap 255 0 0, opX = 0, opY = 0, opAlpha = 1\<rparr>])"
  by (simp add: drawTemplateOnTile_def Let_def ex_key ex_cache ex_toDraw drawOne_def ex_number ex_fields)

lemma ex_full: "map_of (the (chunkedOriginalFull (exampleTemplate 0 ''0 a''))) ''0000,0000,000,000'' = Some (fullBitmap 255 0 0)"
  "maskedBitmap 255 0 0 \<noteq> fullBitmap 255 0 0"
  by (simp_all add: exampleTemplate_def newTemplate_def maskedBitmap_def fullBitmap_def)

text \<open>
  Claim C1, as stated, fails: the example manager is zoomed out with live auto-colour
  off, its template stores a solid (full) original bitmap for the tile that differs from
  the masked one, and the compositor draws the masked bitmap, at the zoomed-out opacity.
\<close>

theorem drawTemplateOnTile_full_variant_counterexample:
  "isZoomedOut exampleManager \<and> \<not> autoColorLive exampleManager
   \<and> fst (drawTemplateOnTile exampleManager True (Fetched []) (0, 0))
       = Inr (Merged (Fetched [])
                [\<lparr>opBitmap = maskedBitmap 255 0 0, opX = 0, opY = 0, opAlpha = 4 / 10\<rparr>])
   \<and> map_of (the (chunkedOriginalFull (exampleTemplate 0 ''0 a''))) ''0000,0000,000,000''
       = Some (fullBitmap 255 0 0)
   \<and> maskedBitmap 255 0 0 \<noteq> fullBitmap 255 0 0"
  using ex_draw ex_full by (simp add: exampleManager_def)

text \<open>
  Claim C1, amended. On a cache miss, every bitmap the compositor draws onto a fetched
  tile is the entry, under a key with the tile's prefix, of an enabled template's masked
  map: the auto-coloured map when live auto-colour is on and the original map otherwise
  (the active map \<open>chunked\<close> where that map is missing). The zoom mode does not select
  the bitmap; it selects the opacity, \<open>zoomOpacity\<close> when zoomed out and 1 when zoomed in.
\<close>

theorem drawTemplateOnTile_draws_masked_variant:
  assumes miss: "map_of (mergedTileCache m) (cacheKeyOf m (tileCoordsKey tc)) = None"
      and res: "fst (drawTemplateOnTile m z (Fetched bs) tc) = Inr (Merged tb ops)"
      and op: "op \<in> set ops"
  shows "(\<exists>t\<in>set (templatesArray m). enabled t
            \<and> (\<exists>tile\<in>fst ` set (chunked t). startsWith tile (tileCoordsKey tc)
                 \<and> map_of (if autoColorLive m
                            then (case chunkedAuto t of Some c \<Rightarrow> c | None \<Rightarrow> chunked t)
                            else (case chunkedOriginal t of Some c \<Rightarrow> c | None \<Rightarrow> chunked t)) tile
                     = Some (opBitmap op)))
         \<and> opAlpha op = (if z then zoomOpacity m else 1)"
proof -
  from res miss have dl: "drawLoop m z (templatesToDraw m (tileCoordsKey tc)) = Inr ops"
    by (auto simp: drawTemplateOnTile_def Let_def split: if_splits sum.splits)
  from drawLoop_ops [OF dl op] obtain e where e: "e \<in> set (templatesToDraw m (tileCoordsKey tc))"
    and b: "entryBitmap e = Some (opBitmap op)" and a: "opAlpha op = (if z then zoomOpacity m else 1)"
    by blast
  from templatesToDraw_mem [OF e] obtain t tile where t: "t \<in> set (templatesArray m)" "enabled t"
    and tile: "tile \<in> fst ` set (chunked t)" "startsWith tile (tileCoordsKey tc)"
    and et: "e = tileEntry m t tile"
    by blast
  from b et have "map_of (sourceMap m t) tile = Some (opBitmap op)"
    by (simp add: tileEntry_def Let_def)
  then have "map_of (if autoColorLive m
                            then (case chunkedAuto t of Some c \<Rightarrow> c | None \<Rightarrow> chunked t)
                            else (case chunkedOriginal t of Some c \<Rightarrow> c | None \<Rightarrow> chunked t)) tile
                     = Some (opBitmap op)"
    by (simp add: sourceMap_def)
  with t tile a show ?thesis by blast
qed

theorem drawTemplateOnTile_draws_masked_variant_witness:
  "map_of (mergedTileCache exampleManager) (cacheKeyOf exampleManager (tileCoordsKey (0, 0))) = None
   \<and> fst (drawTemplateOnTile exampleManager False (Fetched []) (0, 0))
       = Inr (Merged (Fetched [])
                [\<lparr>opBitmap = maskedBitmap 255 0 0, opX = 0, opY = 0, opAlpha = 1\<rparr>])
   \<and> (\<exists>t\<in>set (templatesArray exampleManager). enabled t
          \<and> (\<exists>tile\<in>fst ` set (chunked t). startsWith tile (tileCoordsKey (0, 0))
               \<and> map_of (case chunkedOriginal t of Some c \<Rightarrow> c | None \<Rightarrow> chunked t) tile
                   = Some (maskedBitmap 255 0 0)))"
proof -
  have miss: "map_of (mergedTileCache exampleManager)
                (cacheKeyOf exampleManager (tileCoordsKey (0, 0))) = None"
    by (simp add: ex_key ex_cache ex_fields)
  have off: "\<not> autoColorLive exampleManager" by (simp add: exampleManager_def)
  from drawTemplateOnTile_draws_masked_variant [OF miss ex_draw_in,
         of "\<lparr>opBitmap = maskedBitmap 255 0 0, opX = 0, opY = 0, opAlpha = 1\<rparr>"] off
  have "\<exists>t\<in>set (templatesArray exampleManager). enabled t
          \<and> (\<exists>tile\<in>fst ` set (chunked t). startsWith tile (tileCoordsKey (0, 0))
               \<and> map_of (case chunkedOriginal t of Some c \<Rightarrow> c | None \<Rightarrow> chunked t) tile
                   = Some (maskedBitmap 255 0 0))"
    by simp
  with miss ex_draw_in show ?thesis by blast
qed

section \<open>Slicing: the loops\<close>

lemma jsRem_less: "0 < ts \<Longrightarrow> jsRem a ts < ts"
  by (auto simp: jsRem_def intro: order.strict_trans1 [of _ 0])

lemma jsRem_nonneg: "0 \<le> a \<Longrightarrow> 0 < ts \<Longrightarrow> jsRem a ts = a mod ts"
  by (simp add: jsRem_def)

lemma canvasSizes_Inr:
  "canvasSizes a b = Inr d \<Longrightarrow> a = Some (fst d) \<and> b = Some (snd d) \<and> 0 < fst d \<and> 0 < snd d"
  by (auto simp: canvasSizes_def split: option.splits if_splits)

lemma canvasSizes_pos:
  "0 < dx \<Longrightarrow> 0 < dy \<Longrightarrow> canvasSizes (Some dx) (Some dy) = Inr (dx, dy)"
  by (simp add: canvasSizes_def)

lemma tileBody_fields:
  "regX (tileBody sv (c0, c1, c2, c3) bmp pX pY dX dY) = pX - c2"
  "regY (tileBody sv (c0, c1, c2, c3) bmp pX pY dX dY) = pY - c3"
  "regW (tileBody sv (c0, c1, c2, c3) bmp pX pY dX dY) = dX"
  "regH (tileBody sv (c0, c1, c2, c3) bmp pX pY dX dY) = dY"
  "regKey (tileBody sv (c0, c1, c2, c3) bmp pX pY dX dY) = templateTileName c0 c1 pX pY"
  by (simp_all add: tileBody_def Let_def split: prod.splits)

lemma loopX_Inr_cases:
  assumes "loopX sv ts (c0, c1, c2, c3) bmp pixelY dYo pixelX = Inr rs"
  shows "(\<not> pixelX < int (bmWidth bmp) + c2 \<and> rs = [])
       \<or> (pixelX < int (bmWidth bmp) + c2
          \<and> (\<exists>dX dY rest. drawSize ts pixelX (int (bmWidth bmp)) c2 = Some dX \<and> dYo = Some dY
                \<and> 0 < dX \<and> 0 < dY
                \<and> loopX sv ts (c0, c1, c2, c3) bmp pixelY dYo (pixelX + dX) = Inr rest
                \<and> rs = tileBody sv (c0, c1, c2, c3) bmp pixelX pixelY dX dY # rest))"
proof (cases "pixelX < int (bmWidth bmp) + c2")
  case False
  with assms show ?thesis by (subst (asm) loopX.simps) simp
next
  case True
  from assms True obtain d rest
    where d: "canvasSizes (drawSize ts pixelX (int (bmWidth bmp)) c2) dYo = Inr d"
      and rest: "loopX sv ts (c0, c1, c2, c3) bmp pixelY dYo (pixelX + fst d) = Inr rest"
      and rs: "rs = tileBody sv (c0, c1, c2, c3) bmp pixelX pixelY (fst d) (snd d) # rest"
    by (subst (asm) loopX.simps) (auto split: sum.splits)
  from canvasSizes_Inr [OF d] True rest rs show ?thesis by blast
qed

lemma loopX_geom:
  assumes "loopX sv ts (c0, c1, c2, c3) bmp pixelY dYo pixelX = Inr rs"
  shows "(\<forall>rg\<in>set rs. regY rg = pixelY - c3 \<and> dYo = Some (regH rg) \<and> 0 < regH rg
            \<and> pixelX - c2 \<le> regX rg \<and> regX rg + regW rg \<le> int (bmWidth bmp) \<and> 0 < regW rg
            \<and> drawSize ts (regX rg + c2) (int (bmWidth bmp)) c2 = Some (regW rg)
            \<and> rg = tileBody sv (c0, c1, c2, c3) bmp (regX rg + c2) pixelY (regW rg) (regH rg))
       \<and> (\<forall>x. length (filter (\<lambda>rg. regX rg \<le> x \<and> x < regX rg + regW rg) rs)
               = (if pixelX - c2 \<le> x \<and> x < int (bmWidth bmp) then 1 else 0))"
  using assms
proof (induction sv ts "(c0, c1, c2, c3)" bmp pixelY dYo pixelX arbitrary: rs rule: loopX.induct)
  case (1 sv ts bmp pixelY dYo pixelX)
  from loopX_Inr_cases [OF "1.prems"] show ?case
  proof (elim disjE conjE exE)
    assume "\<not> pixelX < int (bmWidth bmp) + c2" "rs = []"
    then show ?thesis by auto
  next
    fix dX dY rest
    assume lt: "pixelX < int (bmWidth bmp) + c2"
      and ds: "drawSize ts pixelX (int (bmWidth bmp)) c2 = Some dX" and dy: "dYo = Some dY"
      and pos: "0 < dX" "0 < dY"
      and rest: "loopX sv ts (c0, c1, c2, c3) bmp pixelY dYo (pixelX + dX) = Inr rest"
      and rs: "rs = tileBody sv (c0, c1, c2, c3) bmp pixelX pixelY dX dY # rest"
    have cs: "canvasSizes (drawSize ts pixelX (int (bmWidth bmp)) (fst (snd (snd (c0, c1, c2, c3))))) dYo
                = Inr (dX, dY)"
      using ds dy pos by (simp add: canvasSizes_pos)
    have IH: "(\<forall>rg\<in>set rest. regY rg = pixelY - c3 \<and> dYo = Some (regH rg) \<and> 0 < regH rg
            \<and> pixelX + dX - c2 \<le> regX rg \<and> regX rg + regW rg \<le> int (bmWidth bmp) \<and> 0 < regW rg
            \<and> drawSize ts (regX rg + c2) (int (bmWidth bmp)) c2 = Some (regW rg)
            \<and> rg = tileBody sv (c0, c1, c2, c3) bmp (regX rg + c2) pixelY (regW rg) (regH rg))
       \<and> (\<forall>x. length (filter (\<lambda>rg. regX rg \<le> x \<and> x < regX rg + regW rg) rest)
               = (if pixelX + dX - c2 \<le> x \<and> x < int (bmWidth bmp) then 1 else 0))"
      using "1.hyps" [of "(dX, dY)" rest] lt cs rest by simp
    have le: "pixelX - c2 + dX \<le> int (bmWidth bmp)"
      using ds by (auto simp: drawSize_def split: if_splits)
    let ?r0 = "tileBody sv (c0, c1, c2, c3) bmp pixelX pixelY dX dY"
    have r0: "regY ?r0 = pixelY - c3 \<and> dYo = Some (regH ?r0) \<and> 0 < regH ?r0
            \<and> pixelX - c2 \<le> regX ?r0 \<and> regX ?r0 + regW ?r0 \<le> int (bmWidth bmp) \<and> 0 < regW ?r0
            \<and> drawSize ts (regX ?r0 + c2) (int (bmWidth bmp)) c2 = Some (regW ?r0)
            \<and> ?r0 = tileBody sv (c0, c1, c2, c3) bmp (regX ?r0 + c2) pixelY (regW ?r0) (regH ?r0)"
      using ds dy pos le by (simp add: tileBody_fields)
    have part1: "\<forall>rg\<in>set rs. regY rg = pixelY - c3 \<and> dYo = Some (regH rg) \<and> 0 < regH rg
            \<and> pixelX - c2 \<le> regX rg \<and> regX rg + regW rg \<le> int (bmWidth bmp) \<and> 0 < regW rg
            \<and> drawSize ts (regX rg + c2) (int (bmWidth bmp)) c2 = Some (regW rg)
            \<and> rg = tileBody sv (c0, c1, c2, c3) bmp (regX rg + c2) pixelY (regW rg) (regH rg)"
    proof
      fix rg assume "rg \<in> set rs"
      then consider "rg = ?r0" | "rg \<in> set rest" using rs by auto
      then show "regY rg = pixelY - c3 \<and> dYo = Some (regH rg) \<and> 0 < regH rg
            \<and> pixelX - c2 \<le> regX rg \<and> regX rg + regW rg \<le> int (bmWidth bmp) \<and> 0 < regW rg
            \<and> drawSize ts (regX rg + c2) (int (bmWidth bmp)) c2 = Some (regW rg)
            \<and> rg = tileBody sv (c0, c1, c2, c3) bmp (regX rg + c2) pixelY (regW rg) (regH rg)"
      proof cases
        case 1 then show ?thesis using r0 by simp
      next
        case 2
        with IH have "pixelX + dX - c2 \<le> regX rg" by blast
        with pos have "pixelX - c2 \<le> regX rg" by simp
        with IH 2 show ?thesis by blast
      qed
    qed
    have part2: "\<forall>x. length (filter (\<lambda>rg. regX rg \<le> x \<and> x < regX rg + regW rg) rs)
               = (if pixelX - c2 \<le> x \<and> x < int (bmWidth bmp) then 1 else 0)"
    proof
      fix x
      have "length (filter (\<lambda>rg. regX rg \<le> x \<and> x < regX rg + regW rg) rest)
               = (if pixelX + dX - c2 \<le> x \<and> x < int (bmWidth bmp) then 1 else 0)"
        using IH by blast
      then show "length (filter (\<lambda>rg. regX rg \<le> x \<and> x < regX rg + regW rg) rs)
               = (if pixelX - c2 \<le> x \<and> x < int (bmWidth bmp) then 1 else 0)"
        using le pos by (auto simp: rs tileBody_fields)
    qed
    from part1 part2 show ?thesis by blast
  qed
qed

lemma loopX_succeeds:
  assumes "0 < ts" "0 < dY"
  shows "\<exists>rs. loopX sv ts (c0, c1, c2, c3) bmp pixelY (Some dY) pixelX = Inr rs"
  using assms
proof (induction sv ts "(c0, c1, c2, c3)" bmp pixelY "Some dY" pixelX rule: loopX.induct)
  case (1 sv ts bmp pixelY pixelX)
  show ?case
  proof (cases "pixelX < int (bmWidth bmp) + c2")
    case False
    then show ?thesis by (subst loopX.simps) simp
  next
    case True
    define dX where "dX = min (ts - jsRem pixelX ts) (int (bmWidth bmp) - (pixelX - c2))"
    have ds: "drawSize ts pixelX (int (bmWidth bmp)) c2 = Some dX"
      using "1.prems" by (simp add: drawSize_def dX_def)
    have pos: "0 < dX" using jsRem_less [of ts pixelX] "1.prems" True by (simp add: dX_def)
    have cs: "canvasSizes (drawSize ts pixelX (int (bmWidth bmp)) (fst (snd (snd (c0, c1, c2, c3))))) (Some dY)
                = Inr (dX, dY)"
      using ds pos "1.prems" by (simp add: canvasSizes_pos)
    from "1.hyps" [OF _ cs] True "1.prems"
    obtain rest where "loopX sv ts (c0, c1, c2, c3) bmp pixelY (Some dY) (pixelX + dX) = Inr rest"
      by auto
    with True cs show ?thesis by (subst loopX.simps) simp
  qed
qed

lemma loopX_None_empty:
  assumes "loopX sv ts (c0, c1, c2, c3) bmp pixelY None pixelX = Inr rs"
  shows "rs = []"
proof (cases rs)
  case Nil then show ?thesis .
next
  case (Cons r rest)
  with loopX_geom [OF assms] show ?thesis by auto
qed

lemma loopY_Inr_cases:
  assumes "loopY sv ts (c0, c1, c2, c3) bmp pixelY = Inr rs"
  shows "(\<not> pixelY < int (bmHeight bmp) + c3 \<and> rs = [])
       \<or> (pixelY < int (bmHeight bmp) + c3 \<and> drawSize ts pixelY (int (bmHeight bmp)) c3 = None
          \<and> bmWidth bmp = 0 \<and> rs = [])
       \<or> (pixelY < int (bmHeight bmp) + c3
          \<and> (\<exists>dY row rest. drawSize ts pixelY (int (bmHeight bmp)) c3 = Some dY \<and> 0 < dY
                \<and> loopX sv ts (c0, c1, c2, c3) bmp pixelY (Some dY) c2 = Inr row
                \<and> loopY sv ts (c0, c1, c2, c3) bmp (pixelY + dY) = Inr rest
                \<and> rs = row @ rest))"
proof (cases "pixelY < int (bmHeight bmp) + c3")
  case False
  with assms show ?thesis by (subst (asm) loopY.simps) simp
next
  case True
  from assms True obtain row
    where row: "loopX sv ts (c0, c1, c2, c3) bmp pixelY (drawSize ts pixelY (int (bmHeight bmp)) c3) c2 = Inr row"
    by (subst (asm) loopY.simps) (auto simp: Let_def split: sum.splits)
  show ?thesis
  proof (cases "drawSize ts pixelY (int (bmHeight bmp)) c3")
    case None
    with row have "row = []" using loopX_None_empty by simp
    moreover from assms True row None have "rs = row"
      by (subst (asm) loopY.simps) (simp add: Let_def)
    moreover from loopX_Inr_cases [OF row] None have "bmWidth bmp = 0" by auto
    ultimately show ?thesis using True None by simp
  next
    case (Some dY)
    from assms True row Some have pos: "0 < dY"
      by (subst (asm) loopY.simps) (auto simp: Let_def split: if_splits)
    from assms True row Some pos obtain rest
      where "loopY sv ts (c0, c1, c2, c3) bmp (pixelY + dY) = Inr rest" "rs = row @ rest"
      by (subst (asm) loopY.simps) (auto simp: Let_def split: sum.splits)
    with True Some pos row show ?thesis by auto
  qed
qed

lemma loopY_succeeds:
  assumes "0 < ts"
  shows "\<exists>rs. loopY sv ts (c0, c1, c2, c3) bmp pixelY = Inr rs"
  using assms
proof (induction sv ts "(c0, c1, c2, c3)" bmp pixelY rule: loopY.induct)
  case (1 sv ts bmp pixelY)
  show ?case
  proof (cases "pixelY < int (bmHeight bmp) + c3")
    case False
    then show ?thesis by (subst loopY.simps) simp
  next
    case True
    define dY where "dY = min (ts - jsRem pixelY ts) (int (bmHeight bmp) - (pixelY - c3))"
    have ds: "drawSize ts pixelY (int (bmHeight bmp)) c3 = Some dY"
      using "1.prems" by (simp add: drawSize_def dY_def)
    have pos: "0 < dY" using jsRem_less [of ts pixelY] "1.prems" True by (simp add: dY_def)
    from loopX_succeeds [OF "1.prems" pos] obtain row
      where row: "loopX sv ts (c0, c1, c2, c3) bmp pixelY (Some dY) c2 = Inr row" by blast
    from "1.hyps" [of "Some dY" row dY] True ds row pos "1.prems"
    obtain rest where "loopY sv ts (c0, c1, c2, c3) bmp (pixelY + dY) = Inr rest"
      by auto
    with True ds row pos show ?thesis by (subst loopY.simps) (simp add: Let_def)
  qed
qed

lemma row_wellPlaced:
  assumes row: "loopX sv ts (c0, c1, c2, c3) bmp pixelY (Some dY) c2 = Inr row"
    and ds: "drawSize ts pixelY (int (bmHeight bmp)) c3 = Some dY"
    and lo: "c3 \<le> pixelY" and rg: "rg \<in> set row"
  shows "wellPlaced sv ts (c0, c1, c2, c3) bmp rg \<and> regY rg = pixelY - c3 \<and> regH rg = dY"
proof -
  from loopX_geom [OF row] rg
  have g: "regY rg = pixelY - c3" "Some dY = Some (regH rg)" "0 < regH rg"
    "c2 - c2 \<le> regX rg" "regX rg + regW rg \<le> int (bmWidth bmp)" "0 < regW rg"
    "drawSize ts (regX rg + c2) (int (bmWidth bmp)) c2 = Some (regW rg)"
    "rg = tileBody sv (c0, c1, c2, c3) bmp (regX rg + c2) pixelY (regW rg) (regH rg)"
    by blast+
  have h: "pixelY - c3 + dY \<le> int (bmHeight bmp)"
    using ds by (auto simp: drawSize_def split: if_splits)
  show ?thesis
    unfolding wellPlaced_def using g h ds lo by simp
qed

lemma loopY_geom:
  assumes "loopY sv ts (c0, c1, c2, c3) bmp pixelY = Inr rs" "c3 \<le> pixelY"
  shows "(\<forall>rg\<in>set rs. wellPlaced sv ts (c0, c1, c2, c3) bmp rg \<and> pixelY - c3 \<le> regY rg)
       \<and> (\<forall>x y. length (filter (\<lambda>rg. covers rg x y) rs)
               = (if 0 \<le> x \<and> x < int (bmWidth bmp) \<and> pixelY - c3 \<le> y \<and> y < int (bmHeight bmp)
                  then 1 else 0))
       \<and> distinct (map (\<lambda>rg. (regX rg, regY rg)) rs)"
  using assms
proof (induction sv ts "(c0, c1, c2, c3)" bmp pixelY arbitrary: rs rule: loopY.induct)
  case (1 sv ts bmp pixelY)
  from loopY_Inr_cases [OF "1.prems"(1)] show ?case
  proof (elim disjE conjE exE)
    assume "\<not> pixelY < int (bmHeight bmp) + c3" "rs = []"
    then show ?thesis by auto
  next
    assume "pixelY < int (bmHeight bmp) + c3" "drawSize ts pixelY (int (bmHeight bmp)) c3 = None"
      "bmWidth bmp = 0" "rs = []"
    then show ?thesis by auto
  next
    fix dY row rest
    assume lt: "pixelY < int (bmHeight bmp) + c3"
      and ds: "drawSize ts pixelY (int (bmHeight bmp)) c3 = Some dY" and pos: "0 < dY"
      and row: "loopX sv ts (c0, c1, c2, c3) bmp pixelY (Some dY) c2 = Inr row"
      and rest: "loopY sv ts (c0, c1, c2, c3) bmp (pixelY + dY) = Inr rest"
      and rs: "rs = row @ rest"
    have IH: "(\<forall>rg\<in>set rest. wellPlaced sv ts (c0, c1, c2, c3) bmp rg \<and> pixelY + dY - c3 \<le> regY rg)
       \<and> (\<forall>x y. length (filter (\<lambda>rg. covers rg x y) rest)
               = (if 0 \<le> x \<and> x < int (bmWidth bmp) \<and> pixelY + dY - c3 \<le> y \<and> y < int (bmHeight bmp)
                  then 1 else 0))
       \<and> distinct (map (\<lambda>rg. (regX rg, regY rg)) rest)"
      using "1.hyps" [of "drawSize ts pixelY (int (bmHeight bmp)) c3" row dY rest]
        lt ds row pos rest "1.prems"(2)
      by simp
    have h: "pixelY - c3 + dY \<le> int (bmHeight bmp)"
      using ds by (auto simp: drawSize_def split: if_splits)
    have rowP: "\<forall>rg\<in>set row. wellPlaced sv ts (c0, c1, c2, c3) bmp rg
                  \<and> regY rg = pixelY - c3 \<and> regH rg = dY"
      using row_wellPlaced [OF row ds "1.prems"(2)] by blast
    have part1: "\<forall>rg\<in>set rs. wellPlaced sv ts (c0, c1, c2, c3) bmp rg \<and> pixelY - c3 \<le> regY rg"
    proof
      fix rg assume "rg \<in> set rs"
      then consider "rg \<in> set row" | "rg \<in> set rest" using rs by auto
      then show "wellPlaced sv ts (c0, c1, c2, c3) bmp rg \<and> pixelY - c3 \<le> regY rg"
      proof cases
        case 1 with rowP show ?thesis by simp
      next
        case 2
        with IH have "wellPlaced sv ts (c0, c1, c2, c3) bmp rg" "pixelY + dY - c3 \<le> regY rg" by blast+
        with pos show ?thesis by simp
      qed
    qed
    have part2: "\<forall>x y. length (filter (\<lambda>rg. covers rg x y) rs)
               = (if 0 \<le> x \<and> x < int (bmWidth bmp) \<and> pixelY - c3 \<le> y \<and> y < int (bmHeight bmp)
                  then 1 else 0)"
    proof (intro allI)
      fix x y
      have xr: "length (filter (\<lambda>rg. regX rg \<le> x \<and> x < regX rg + regW rg) row)
                  = (if 0 \<le> x \<and> x < int (bmWidth bmp) then 1 else 0)"
        using loopX_geom [OF row] by simp
      have "filter (\<lambda>rg. covers rg x y) row
              = filter (\<lambda>rg. (regX rg \<le> x \<and> x < regX rg + regW rg)
                              \<and> pixelY - c3 \<le> y \<and> y < pixelY - c3 + dY) row"
        using rowP by (intro filter_cong) (auto simp: covers_def)
      also have "\<dots> = (if pixelY - c3 \<le> y \<and> y < pixelY - c3 + dY
                        then filter (\<lambda>rg. regX rg \<le> x \<and> x < regX rg + regW rg) row else [])"
        by simp
      finally have "length (filter (\<lambda>rg. covers rg x y) row)
              = (if pixelY - c3 \<le> y \<and> y < pixelY - c3 + dY
                 then length (filter (\<lambda>rg. regX rg \<le> x \<and> x < regX rg + regW rg) row) else 0)"
        by simp
      then have rw: "length (filter (\<lambda>rg. covers rg x y) row)
              = (if 0 \<le> x \<and> x < int (bmWidth bmp) \<and> pixelY - c3 \<le> y \<and> y < pixelY - c3 + dY
                 then 1 else 0)"
        by (simp only: xr) simp
      have rt: "length (filter (\<lambda>rg. covers rg x y) rest)
               = (if 0 \<le> x \<and> x < int (bmWidth bmp) \<and> pixelY + dY - c3 \<le> y \<and> y < int (bmHeight bmp)
                  then 1 else 0)"
        using IH by blast
      show "length (filter (\<lambda>rg. covers rg x y) rs)
               = (if 0 \<le> x \<and> x < int (bmWidth bmp) \<and> pixelY - c3 \<le> y \<and> y < int (bmHeight bmp)
                  then 1 else 0)"
        using rw rt h pos by (auto simp: rs)
    qed
    have drow: "distinct (map (\<lambda>rg. (regX rg, regY rg)) row)"
    proof -
      have "\<forall>x. length (filter (\<lambda>rg. regX rg \<le> x \<and> x < regX rg + regW rg) row) \<le> 1"
        using loopX_geom [OF row] by simp
      moreover have "\<forall>rg\<in>set row. 0 < regW rg" using loopX_geom [OF row] by blast
      ultimately have "distinct (map regX row)"
      proof (induction row)
        case Nil then show ?case by simp
      next
        case (Cons r row)
        have "regX r \<notin> regX ` set row"
        proof
          assume "regX r \<in> regX ` set row"
          then obtain r' where r': "r' \<in> set row" "regX r' = regX r" by auto
          moreover from r' Cons.prems(2) have "0 < regW r'" by simp
          ultimately have "\<exists>a\<in>set row. regX a \<le> regX r \<and> regX r < regX a + regW a"
            by (intro bexI [of _ r']) simp_all
          then have "filter (\<lambda>rg. regX rg \<le> regX r \<and> regX r < regX rg + regW rg) row \<noteq> []"
            by (simp add: filter_empty_conv)
          then have "1 \<le> length (filter (\<lambda>rg. regX rg \<le> regX r \<and> regX r < regX rg + regW rg) row)"
            by (simp add: Suc_le_eq)
          moreover have "length (filter (\<lambda>rg. regX rg \<le> regX r \<and> regX r < regX rg + regW rg) (r # row)) \<le> 1"
            using Cons.prems(1) by blast
          ultimately show False using Cons.prems(2) by simp
        qed
        moreover have "distinct (map regX row)"
        proof (rule Cons.IH)
          show "\<forall>x. length (filter (\<lambda>rg. regX rg \<le> x \<and> x < regX rg + regW rg) row) \<le> 1"
          proof
            fix x
            have "length (filter (\<lambda>rg. regX rg \<le> x \<and> x < regX rg + regW rg) row)
                    \<le> length (filter (\<lambda>rg. regX rg \<le> x \<and> x < regX rg + regW rg) (r # row))"
              by simp
            also have "\<dots> \<le> 1" using Cons.prems(1) by blast
            finally show "length (filter (\<lambda>rg. regX rg \<le> x \<and> x < regX rg + regW rg) row) \<le> 1" .
          qed
          show "\<forall>rg\<in>set row. 0 < regW rg" using Cons.prems(2) by simp
        qed
        ultimately show ?case by simp
      qed
      then show ?thesis by (simp add: distinct_map inj_on_def)
    qed
    have disj: "set (map (\<lambda>rg. (regX rg, regY rg)) row) \<inter> set (map (\<lambda>rg. (regX rg, regY rg)) rest) = {}"
    proof -
      have "\<forall>a\<in>set row. \<forall>b\<in>set rest. regY a \<noteq> regY b"
      proof (intro ballI)
        fix a b assume "a \<in> set row" "b \<in> set rest"
        with rowP IH have "regY a = pixelY - c3" "pixelY + dY - c3 \<le> regY b" by blast+
        with pos show "regY a \<noteq> regY b" by simp
      qed
      then show ?thesis by auto
    qed
    have part3: "distinct (map (\<lambda>rg. (regX rg, regY rg)) rs)"
      using drow IH disj by (simp add: rs)
    from part1 part2 part3 show ?thesis by blast
  qed
qed

section \<open>Slicing: tile keys\<close>

lemma digitChar_table:
  "list_all (\<lambda>n. digitVal (digitChar n) = n \<and> isDigit (digitChar n)) [0..<10]"
  by code_simp

lemma digitChar_cases:
  assumes "n < 10"
  shows "digitVal (digitChar n) = n \<and> isDigit (digitChar n)"
proof -
  from assms have "n \<in> set [0..<10]" by simp
  with digitChar_table show ?thesis unfolding list_all_iff by blast
qed

lemma isDigit_not_sep: "isDigit c \<Longrightarrow> c \<noteq> CHR '','' \<and> c \<noteq> CHR ''-''"
  by (auto simp: isDigit_def)

lemma decimalValue_snoc: "decimalValue (s @ [c]) = 10 * decimalValue s + digitVal c"
  by (simp add: decimalValue_def)

lemma digitsOf_props: "decimalValue (digitsOf n) = n \<and> list_all isDigit (digitsOf n) \<and> digitsOf n \<noteq> []"
proof (induction n rule: digitsOf.induct)
  case (1 n)
  show ?case
  proof (cases "n < 10")
    case True
    then show ?thesis
      using digitChar_cases [of n] by (subst (1 2 3) digitsOf.simps) (simp add: decimalValue_def)
  next
    case False
    have m: "n mod 10 < 10" by simp
    from False 1 have IH: "decimalValue (digitsOf (n div 10)) = n div 10"
      "list_all isDigit (digitsOf (n div 10))" by simp_all
    show ?thesis
      using False IH digitChar_cases [OF m]
      by (subst (1 2 3) digitsOf.simps) (simp add: decimalValue_snoc)
  qed
qed

lemma decimalValue_zeros: "decimalValue (replicate k CHR ''0'' @ s) = decimalValue s"
proof -
  have "foldl (\<lambda>a c. 10 * a + digitVal c) 0 (replicate k CHR ''0'') = 0"
    by (induction k) (simp_all add: digitVal_def)
  then show ?thesis by (simp add: decimalValue_def)
qed

lemma dropWhile_zeros: "dropWhile (\<lambda>c. c = CHR ''0'') (replicate k CHR ''0'' @ s) = dropWhile (\<lambda>c. c = CHR ''0'') s"
  by (induction k) simp_all

lemma unpad_padStart: "unpad (padStart k CHR ''0'' (toString i)) = i"
proof (cases "i < 0")
  case True
  then show ?thesis
    using digitsOf_props [of "nat (- i)"]
    by (simp add: unpad_def padStart_def toString_def dropWhile_zeros)
next
  case False
  have nd: "\<And>c r. dropWhile (\<lambda>c. c = CHR ''0'') (digitsOf (nat i)) = c # r \<Longrightarrow> c \<noteq> CHR ''-''"
  proof -
    fix c r assume a: "dropWhile (\<lambda>c. c = CHR ''0'') (digitsOf (nat i)) = c # r"
    then have "c \<in> set (dropWhile (\<lambda>c. c = CHR ''0'') (digitsOf (nat i)))" by simp
    then have "c \<in> set (digitsOf (nat i))" by (rule set_dropWhileD)
    with digitsOf_props [of "nat i"] have "isDigit c" by (simp add: list_all_iff)
    then show "c \<noteq> CHR ''-''" by (simp add: isDigit_not_sep)
  qed
  show ?thesis
    using False digitsOf_props [of "nat i"] nd
    by (auto simp: unpad_def padStart_def toString_def dropWhile_zeros decimalValue_zeros
             split: list.splits)
qed

lemma padStart_no_comma: "CHR '','' \<notin> set (padStart k CHR ''0'' (toString i))"
proof -
  have "CHR '','' \<notin> set (digitsOf n)" for n
    using digitsOf_props [of n] isDigit_not_sep by (auto simp: list_all_iff)
  then show ?thesis by (auto simp: padStart_def toString_def)
qed

lemma split_field:
  assumes "CHR '','' \<notin> set a"
  shows "split CHR '','' (a @ CHR '','' # rest) = a # split CHR '','' rest"
    and "split CHR '','' a = [a]"
  using assms by (induction a) (auto split: list.splits)

lemma div_rem_inj:
  assumes "x div 1000 = x' div 1000" "jsRem x 1000 = jsRem x' 1000"
  shows "x = (x' :: int)"
proof -
  have s: "x < 0 \<longleftrightarrow> x' < 0"
    using assms(1) by (metis neg_imp_zdiv_neg_iff pos_imp_zdiv_neg_iff zero_less_numeral)
  have d: "x = 1000 * (x div 1000) + x mod 1000" "x' = 1000 * (x' div 1000) + x' mod 1000" by simp_all
  show ?thesis
  proof (cases "x < 0")
    case False
    with s assms(2) have "x mod 1000 = x' mod 1000" by (simp add: jsRem_def)
    with d assms(1) show ?thesis by metis
  next
    case True
    with s assms(2) have e: "(- x) mod 1000 = (- x') mod 1000" by (simp add: jsRem_def)
    have "x mod 1000 = x' mod 1000"
      using e by (metis mod_minus_cong minus_minus)
    with d assms(1) show ?thesis by metis
  qed
qed

lemma templateTileName_inj:
  assumes "templateTileName c0 c1 x y = templateTileName c0 c1 x' y'"
  shows "x = x' \<and> y = y'"
proof -
  let ?f = "\<lambda>k i. padStart k CHR ''0'' (toString i)"
  have sp: "split CHR '','' (templateTileName c0 c1 a b)
              = [?f 4 (c0 + a div 1000), ?f 4 (c1 + b div 1000), ?f 3 (jsRem a 1000), ?f 3 (jsRem b 1000)]"
    for a b
  proof -
    have 1: "split CHR '','' (?f 3 (jsRem b 1000)) = [?f 3 (jsRem b 1000)]"
      by (rule split_field(2)) (rule padStart_no_comma)
    have 4: "split CHR '','' (?f 4 (c0 + a div 1000) @ CHR '','' # ?f 4 (c1 + b div 1000) @ CHR '','' # ?f 3 (jsRem a 1000) @ CHR '','' # ?f 3 (jsRem b 1000))
               = [?f 4 (c0 + a div 1000), ?f 4 (c1 + b div 1000), ?f 3 (jsRem a 1000), ?f 3 (jsRem b 1000)]"
      by (simp only: split_field(1) [OF padStart_no_comma] 1)
    have "templateTileName c0 c1 a b = ?f 4 (c0 + a div 1000) @ CHR '','' # ?f 4 (c1 + b div 1000) @ CHR '','' # ?f 3 (jsRem a 1000) @ CHR '','' # ?f 3 (jsRem b 1000)"
      by (simp add: templateTileName_def)
    then show ?thesis by (simp only: 4)
  qed
  have l: "[?f 4 (c0 + x div 1000), ?f 4 (c1 + y div 1000), ?f 3 (jsRem x 1000), ?f 3 (jsRem y 1000)]
         = [?f 4 (c0 + x' div 1000), ?f 4 (c1 + y' div 1000), ?f 3 (jsRem x' 1000), ?f 3 (jsRem y' 1000)]"
    using sp [of x y] sp [of x' y'] assms by (simp only:)
  have pad_inj: "i = j" if a: "?f k i = ?f k j" for k i j
  proof -
    have "i = unpad (?f k i)" by (simp only: unpad_padStart)
    also have "\<dots> = unpad (?f k j)" by (simp only: a)
    also have "\<dots> = j" by (simp only: unpad_padStart)
    finally show "i = j" .
  qed
  from l have e1: "?f 4 (c0 + x div 1000) = ?f 4 (c0 + x' div 1000)"
    and e2: "?f 4 (c1 + y div 1000) = ?f 4 (c1 + y' div 1000)"
    and e3: "?f 3 (jsRem x 1000) = ?f 3 (jsRem x' 1000)"
    and e4: "?f 3 (jsRem y 1000) = ?f 3 (jsRem y' 1000)"
    by (simp_all only: list.inject)
  have "c0 + x div 1000 = c0 + x' div 1000" by (rule pad_inj [OF e1])
  then have dx: "x div 1000 = x' div 1000" by simp
  have "c1 + y div 1000 = c1 + y' div 1000" by (rule pad_inj [OF e2])
  then have dy: "y div 1000 = y' div 1000" by simp
  have rx: "jsRem x 1000 = jsRem x' 1000" by (rule pad_inj [OF e3])
  have ry: "jsRem y 1000 = jsRem y' 1000" by (rule pad_inj [OF e4])
  from div_rem_inj [OF dx rx] div_rem_inj [OF dy ry] show ?thesis by (rule conjI)
qed

section \<open>Slicing: pixel classification\<close>

lemma pixelStep_wellSized: "wellSized n bufs \<Longrightarrow> wellSized n (pixelStep pal src w y x bufs)"
  by (cases bufs) (simp add: wellSized_def pixelStep_def Let_def split: prod.splits)

lemma pixelStep_frame:
  assumes "y' * w + x' \<noteq> q"
  shows "cell q (pixelStep pal src w y' x' bufs) = cell q bufs"
proof -
  define q' where "q' = y' * w + x'"
  have ne: "q' \<noteq> q" using assms by (simp add: q'_def)
  obtain orig mapped idxMap where b: "bufs = (orig, mapped, idxMap)" by (cases bufs) auto
  have "cell q (pixelStep pal src w y' x' (orig, mapped, idxMap)) = cell q (orig, mapped, idxMap)"
    unfolding pixelStep_def q'_def [symmetric] using ne
    by (simp add: cell_def Let_def split: prod.splits)
  then show ?thesis by (simp add: b)
qed

lemma fold_row_wellSized:
  "wellSized n bufs \<Longrightarrow> wellSized n (fold (\<lambda>x. pixelStep pal src w y x) xs bufs)"
  by (induction xs arbitrary: bufs) (simp_all add: pixelStep_wellSized)

lemma fold_rows_wellSized:
  "wellSized n bufs \<Longrightarrow> wellSized n (fold (\<lambda>y. fold (\<lambda>x. pixelStep pal src w y x) xs) ys bufs)"
  by (induction ys arbitrary: bufs) (simp_all add: fold_row_wellSized)

lemma fold_row_frame:
  assumes "\<forall>x'\<in>set xs. y' * w + x' \<noteq> q"
  shows "cell q (fold (\<lambda>x. pixelStep pal src w y' x) xs bufs) = cell q bufs"
  using assms by (induction xs arbitrary: bufs) (simp_all add: pixelStep_frame)

lemma fold_rows_frame:
  assumes "\<forall>y'\<in>set ys. \<forall>x'\<in>set xs. y' * w + x' \<noteq> q"
  shows "cell q (fold (\<lambda>y. fold (\<lambda>x. pixelStep pal src w y x) xs) ys bufs) = cell q bufs"
  using assms by (induction ys arbitrary: bufs) (simp_all add: fold_row_frame)

lemma row_major_inj:
  assumes "x < w" "x' < w" "y * w + x = y' * w + x'"
  shows "y = y' \<and> x = (x' :: nat)"
proof -
  have "(y * w + x) div w = y" using assms(1) by simp
  moreover have "(y' * w + x') div w = y'" using assms(2) by simp
  ultimately have "y = y'" using assms(3) by metis
  with assms(3) show ?thesis by simp
qed

text \<open>What the step for a sentinel pixel writes into its own cell.\<close>

lemma pixelStep_hit_sentinel:
  assumes ws: "wellSized n bufs" and q: "y * w + x < n"
    and s: "src ! ((y * w + x) * 4) = 222" "src ! ((y * w + x) * 4 + 1) = 250"
           "src ! ((y * w + x) * 4 + 2) = 206"
  shows "cell (y * w + x) (pixelStep pal src w y x bufs) =
           (if (x + y) mod 2 = 0 then ([0, 0, 0, 32], [0, 0, 0, 32], 0)
            else (take 3 (fst (cell (y * w + x) bufs)) @ [0],
                  take 3 (fst (snd (cell (y * w + x) bufs))) @ [0], 0))"
proof -
  define q where "q = y * w + x"
  obtain orig mapped idxMap where b: "bufs = (orig, mapped, idxMap)" by (cases bufs) auto
  from ws q have len: "q * 4 + 3 < length orig" "q * 4 + 3 < length mapped" "q < length idxMap"
    by (auto simp: wellSized_def b q_def)
  show ?thesis
    unfolding pixelStep_def q_def [symmetric] b using len s [folded q_def]
    by (simp add: cell_def Let_def)
qed

text \<open>What the step for a fully transparent pixel of another colour writes into its own cell.\<close>

lemma pixelStep_hit_transparent:
  assumes ws: "wellSized n bufs" and q: "y * w + x < n"
    and s: "src ! ((y * w + x) * 4) = 0" "src ! ((y * w + x) * 4 + 3) = 0"
  shows "cell (y * w + x) (pixelStep pal src w y x bufs) =
           (fst (cell (y * w + x) bufs), fst (snd (cell (y * w + x) bufs)), 0)"
proof -
  define q where "q = y * w + x"
  obtain orig mapped idxMap where b: "bufs = (orig, mapped, idxMap)" by (cases bufs) auto
  from ws q have len: "q * 4 + 3 < length orig" "q * 4 + 3 < length mapped" "q < length idxMap"
    by (auto simp: wellSized_def b q_def)
  show ?thesis
    unfolding pixelStep_def q_def [symmetric] b using len s [folded q_def]
    by (simp add: cell_def Let_def)
qed

text \<open>
  The loops visit every pixel once: the final content of a cell is what the step for
  that pixel wrote, on buffers whose cell still held the copy of \<open>src\<close>.
\<close>

lemma processPixels_cell:
  assumes x: "x < w" and y: "y < h" and len: "length src = 4 * (w * h)"
  obtains s where "wellSized (w * h) s" "y * w + x < w * h"
    "cell (y * w + x) s = cell (y * w + x) (src, src, replicate (w * h) (0::nat))"
    "cell (y * w + x) (processPixels pal src w h) = cell (y * w + x) (pixelStep pal src w y x s)"
proof -
  let ?q = "y * w + x"
  let ?row = "\<lambda>y. fold (\<lambda>x. pixelStep pal src w y x) [0..<w]"
  let ?s0 = "(src, src, replicate (w * h) (0::nat))"
  have ws0: "wellSized (w * h) ?s0" using len by (simp add: wellSized_def)
  have qn: "?q < w * h"
  proof -
    have "y * w + x < y * w + w" using x by simp
    also have "\<dots> = Suc y * w" by simp
    also have "\<dots> \<le> h * w" using y by (intro mult_le_mono1) simp
    finally show ?thesis by (simp add: mult.commute)
  qed
  have ys: "[0..<h] = [0..<y] @ [y] @ [Suc y..<h]"
    using y by (metis append_Cons append_Nil le_add2 le_add_same_cancel2 less_imp_add_positive upt_add_eq_append upt_conv_Cons zero_le)
  have xs: "[0..<w] = [0..<x] @ [x] @ [Suc x..<w]"
    using x by (metis append_Cons append_Nil le_add2 le_add_same_cancel2 less_imp_add_positive upt_add_eq_append upt_conv_Cons zero_le)
  define s1 where "s1 = fold ?row [0..<y] ?s0"
  define s2 where "s2 = fold (\<lambda>x. pixelStep pal src w y x) [0..<x] s1"
  define s3 where "s3 = pixelStep pal src w y x s2"
  define s4 where "s4 = fold (\<lambda>x. pixelStep pal src w y x) [Suc x..<w] s3"
  have final: "processPixels pal src w h = fold ?row [Suc y..<h] s4"
    unfolding processPixels_def s4_def s3_def s2_def s1_def
    by (subst ys, simp only: fold_append comp_apply fold_simps, subst xs,
        simp only: fold_append comp_apply fold_simps)
  have ws1: "wellSized (w * h) s1" unfolding s1_def by (rule fold_rows_wellSized [OF ws0])
  have ws2: "wellSized (w * h) s2" unfolding s2_def by (rule fold_row_wellSized [OF ws1])
  have c1: "cell ?q s1 = cell ?q ?s0" unfolding s1_def
  proof (rule fold_rows_frame, intro ballI)
    fix y' x' assume "y' \<in> set [0..<y]" "x' \<in> set [0..<w]"
    then have "y' \<noteq> y" "x' < w" by auto
    with x row_major_inj [of x' w x y' y] show "y' * w + x' \<noteq> y * w + x" by blast
  qed
  have c2: "cell ?q s2 = cell ?q s1" unfolding s2_def
  proof (rule fold_row_frame, intro ballI)
    fix x' assume "x' \<in> set [0..<x]"
    then show "y * w + x' \<noteq> y * w + x" by auto
  qed
  have c4: "cell ?q s4 = cell ?q s3" unfolding s4_def
  proof (rule fold_row_frame, intro ballI)
    fix x' assume "x' \<in> set [Suc x..<w]"
    then show "y * w + x' \<noteq> y * w + x" by auto
  qed
  have c5: "cell ?q (fold ?row [Suc y..<h] s4) = cell ?q s4"
  proof (rule fold_rows_frame, intro ballI)
    fix y' x' assume "y' \<in> set [Suc y..<h]" "x' \<in> set [0..<w]"
    then have "y' \<noteq> y" "x' < w" by auto
    with x row_major_inj [of x' w x y' y] show "y' * w + x' \<noteq> y * w + x" by blast
  qed
  have "cell ?q s2 = cell ?q ?s0" using c2 c1 by simp
  moreover have "cell ?q (processPixels pal src w h) = cell ?q (pixelStep pal src w y x s2)"
    using final c5 c4 by (simp add: s3_def)
  ultimately show ?thesis using that [OF ws2 qn] by blast
qed

lemma processPixels_sentinel:
  assumes x: "x < w" and y: "y < h" and len: "length src = 4 * (w * h)"
    and s: "src ! ((y * w + x) * 4) = 222" "src ! ((y * w + x) * 4 + 1) = 250"
           "src ! ((y * w + x) * 4 + 2) = 206"
  shows "cell (y * w + x) (processPixels pal src w h) =
           (if (x + y) mod 2 = 0 then ([0, 0, 0, 32], [0, 0, 0, 32], 0)
            else ([222, 250, 206, 0], [222, 250, 206, 0], 0))"
proof -
  let ?q = "y * w + x"
  from processPixels_cell [OF x y len, of pal] obtain s2 where ws2: "wellSized (w * h) s2"
    and qn: "?q < w * h"
    and c2: "cell ?q s2 = cell ?q (src, src, replicate (w * h) (0::nat))"
    and fin: "cell ?q (processPixels pal src w h) = cell ?q (pixelStep pal src w y x s2)"
    by blast
  have c0: "cell ?q (src, src, replicate (w * h) (0::nat))
              = ([222, 250, 206, src ! (?q * 4 + 3)], [222, 250, 206, src ! (?q * 4 + 3)], 0)"
    using s qn by (simp add: cell_def)
  show ?thesis
    using pixelStep_hit_sentinel [OF ws2 qn s, of pal] c2 c0 fin by simp
qed

lemma processPixels_transparent:
  assumes x: "x < w" and y: "y < h" and len: "length src = 4 * (w * h)"
    and s: "src ! ((y * w + x) * 4) = 0" "src ! ((y * w + x) * 4 + 1) = 0"
           "src ! ((y * w + x) * 4 + 2) = 0" "src ! ((y * w + x) * 4 + 3) = 0"
  shows "cell (y * w + x) (processPixels pal src w h) = ([0, 0, 0, 0], [0, 0, 0, 0], 0)"
proof -
  let ?q = "y * w + x"
  from processPixels_cell [OF x y len, of pal] obtain s2 where ws2: "wellSized (w * h) s2"
    and qn: "?q < w * h"
    and c2: "cell ?q s2 = cell ?q (src, src, replicate (w * h) (0::nat))"
    and fin: "cell ?q (processPixels pal src w h) = cell ?q (pixelStep pal src w y x s2)"
    by blast
  have c0: "cell ?q (src, src, replicate (w * h) (0::nat)) = ([0, 0, 0, 0], [0, 0, 0, 0], 0)"
    using s qn by (simp add: cell_def)
  show ?thesis
    using pixelStep_hit_transparent [OF ws2 qn s(1) s(4), of pal] c2 c0 fin by simp
qed

section \<open>Slicing: the claims\<close>

lemma sliceRegions_loopY:
  assumes "imageFile t = Some bmp" "1 \<le> bmWidth bmp" "1 \<le> bmHeight bmp"
    "coords t = Some (c0, c1, c2, c3)"
  shows "sliceRegions sv t = loopY sv (tileSize t) (c0, c1, c2, c3) bmp c3"
  using assms by (simp add: sliceRegions_def createImageBitmap_def)

lemma sliceRegions_Inr:
  assumes "sliceRegions sv t = Inr regions"
  obtains bmp c0 c1 c2 c3 where "imageFile t = Some bmp" "coords t = Some (c0, c1, c2, c3)"
    "loopY sv (tileSize t) (c0, c1, c2, c3) bmp c3 = Inr regions"
  using assms
  by (auto simp: sliceRegions_def createImageBitmap_def split: option.splits if_splits)

text \<open>The regions of the strip template, by evaluation.\<close>

lemma strip_regions:
  "sliceRegions exampleServices stripTemplate =
     Inr [\<lparr>regKey = ''0005,0007,999,000'', regX = 0, regY = 0, regW = 1, regH = 1,
           regOrig = [255, 255, 255, 255], regMapped = [255, 255, 255, 255], regIdx = [2]\<rparr>,
          \<lparr>regKey = ''0006,0007,000,000'', regX = 1, regY = 0, regW = 2, regH = 1,
           regOrig = [0, 0, 0, 32, 222, 250, 206, 0],
           regMapped = [0, 0, 0, 32, 222, 250, 206, 0], regIdx = [0, 0]\<rparr>]"
  by code_simp

lemma strip_fields:
  "imageFile stripTemplate = Some stripBitmap" "coords stripTemplate = Some (5, 7, 999, 0)"
  "tileSize stripTemplate = 1000" "bmWidth stripBitmap = 3" "bmHeight stripBitmap = 1"
  by (simp_all add: stripTemplate_def newTemplate_def stripBitmap_def)

text \<open>
  Claim C5. For a decoded image of width and height at least 1, a non-negative anchor
  pixel offset and a positive tile size, slicing returns, and its regions partition the
  image's bounding box: every pixel of the box lies in exactly one region and every
  region lies inside the box. Along each axis a region's extent is the minimum of
  \<open>tileSize - (absolute coordinate mod tileSize)\<close> and the remaining image extent, hence
  between 1 and \<open>tileSize\<close>.
\<close>

theorem sliceRegions_partition:
  assumes f: "imageFile t = Some bmp" and w: "1 \<le> bmWidth bmp" and h: "1 \<le> bmHeight bmp"
    and c: "coords t = Some (c0, c1, c2, c3)" and c2: "0 \<le> c2" and c3: "0 \<le> c3"
    and ts: "0 < tileSize t"
  shows "\<exists>regions. sliceRegions sv t = Inr regions
     \<and> (\<forall>x y. 0 \<le> x \<and> x < int (bmWidth bmp) \<and> 0 \<le> y \<and> y < int (bmHeight bmp)
            \<longrightarrow> length (filter (\<lambda>rg. covers rg x y) regions) = 1)
     \<and> (\<forall>rg\<in>set regions.
            0 \<le> regX rg \<and> regX rg + regW rg \<le> int (bmWidth bmp)
          \<and> 0 \<le> regY rg \<and> regY rg + regH rg \<le> int (bmHeight bmp)
          \<and> regW rg = min (tileSize t - (c2 + regX rg) mod tileSize t) (int (bmWidth bmp) - regX rg)
          \<and> regH rg = min (tileSize t - (c3 + regY rg) mod tileSize t) (int (bmHeight bmp) - regY rg)
          \<and> 1 \<le> regW rg \<and> regW rg \<le> tileSize t \<and> 1 \<le> regH rg \<and> regH rg \<le> tileSize t)"
proof -
  from loopY_succeeds [OF ts, of sv c0 c1 c2 c3 bmp c3] obtain regions
    where ly: "loopY sv (tileSize t) (c0, c1, c2, c3) bmp c3 = Inr regions" by blast
  then have sr: "sliceRegions sv t = Inr regions"
    by (simp add: sliceRegions_loopY [OF f w h c])
  from loopY_geom [OF ly] have
    wp: "\<forall>rg\<in>set regions. wellPlaced sv (tileSize t) (c0, c1, c2, c3) bmp rg"
    and cnt: "\<forall>x y. length (filter (\<lambda>rg. covers rg x y) regions)
               = (if 0 \<le> x \<and> x < int (bmWidth bmp) \<and> c3 - c3 \<le> y \<and> y < int (bmHeight bmp)
                  then 1 else 0)"
    by simp_all
  have ext: "0 \<le> regX rg \<and> regX rg + regW rg \<le> int (bmWidth bmp)
          \<and> 0 \<le> regY rg \<and> regY rg + regH rg \<le> int (bmHeight bmp)
          \<and> regW rg = min (tileSize t - (c2 + regX rg) mod tileSize t) (int (bmWidth bmp) - regX rg)
          \<and> regH rg = min (tileSize t - (c3 + regY rg) mod tileSize t) (int (bmHeight bmp) - regY rg)
          \<and> 1 \<le> regW rg \<and> regW rg \<le> tileSize t \<and> 1 \<le> regH rg \<and> regH rg \<le> tileSize t"
    if "rg \<in> set regions" for rg
  proof -
    from wp that have p: "wellPlaced sv (tileSize t) (c0, c1, c2, c3) bmp rg" by blast
    then have x0: "0 \<le> regX rg" and y0: "0 \<le> regY rg" by (simp_all add: wellPlaced_def)
    have jx: "jsRem (regX rg + c2) (tileSize t) = (c2 + regX rg) mod tileSize t"
      using x0 c2 ts by (simp add: jsRem_nonneg add.commute)
    have jy: "jsRem (regY rg + c3) (tileSize t) = (c3 + regY rg) mod tileSize t"
      using y0 c3 ts by (simp add: jsRem_nonneg add.commute)
    have mx: "0 \<le> (c2 + regX rg) mod tileSize t" and my: "0 \<le> (c3 + regY rg) mod tileSize t"
      using ts by simp_all
    from p have "regW rg = min (tileSize t - (c2 + regX rg) mod tileSize t) (int (bmWidth bmp) - regX rg)"
      "regH rg = min (tileSize t - (c3 + regY rg) mod tileSize t) (int (bmHeight bmp) - regY rg)"
      using ts by (simp_all add: wellPlaced_def drawSize_def jx jy)
    moreover from p have "regX rg + regW rg \<le> int (bmWidth bmp)" "regY rg + regH rg \<le> int (bmHeight bmp)"
      "0 < regW rg" "0 < regH rg" by (simp_all add: wellPlaced_def)
    ultimately show ?thesis using x0 y0 mx my by linarith
  qed
  have cover: "length (filter (\<lambda>rg. covers rg x y) regions) = 1"
    if "0 \<le> x \<and> x < int (bmWidth bmp) \<and> 0 \<le> y \<and> y < int (bmHeight bmp)" for x y
    using cnt that by simp
  show ?thesis
  proof (intro exI [of _ regions] conjI allI impI ballI)
    show "sliceRegions sv t = Inr regions" by (rule sr)
  qed (use cover ext in blast)+
qed

theorem sliceRegions_partition_witness:
  "imageFile stripTemplate = Some stripBitmap \<and> bmWidth stripBitmap = 3 \<and> bmHeight stripBitmap = 1
   \<and> coords stripTemplate = Some (5, 7, 999, 0) \<and> tileSize stripTemplate = 1000
   \<and> (\<exists>regions. sliceRegions exampleServices stripTemplate = Inr regions
          \<and> map (\<lambda>rg. (regX rg, regY rg, regW rg, regH rg)) regions = [(0, 0, 1, 1), (1, 0, 2, 1)]
          \<and> map (\<lambda>x. length (filter (\<lambda>rg. covers rg x 0) regions)) [0, 1, 2] = [1, 1, 1])"
proof -
  have w: "1 \<le> bmWidth stripBitmap" and h: "1 \<le> bmHeight stripBitmap"
    by (simp_all add: strip_fields)
  have ts: "0 < tileSize stripTemplate" by (simp add: strip_fields)
  from sliceRegions_partition [OF strip_fields(1) w h strip_fields(2) _ _ ts, of exampleServices]
  obtain regions where r: "sliceRegions exampleServices stripTemplate = Inr regions"
    and c: "\<forall>x y. 0 \<le> x \<and> x < int (bmWidth stripBitmap) \<and> 0 \<le> y \<and> y < int (bmHeight stripBitmap)
              \<longrightarrow> length (filter (\<lambda>rg. covers rg x y) regions) = 1"
    by auto
  from c have "map (\<lambda>x. length (filter (\<lambda>rg. covers rg x 0) regions)) [0, 1, 2] = [1, 1, 1]"
    by (simp add: strip_fields)
  moreover from r have "map (\<lambda>rg. (regX rg, regY rg, regW rg, regH rg)) regions = [(0, 0, 1, 1), (1, 0, 2, 1)]"
    by (auto simp: strip_regions)
  ultimately have "\<exists>regions. sliceRegions exampleServices stripTemplate = Inr regions
          \<and> map (\<lambda>rg. (regX rg, regY rg, regW rg, regH rg)) regions = [(0, 0, 1, 1), (1, 0, 2, 1)]
          \<and> map (\<lambda>x. length (filter (\<lambda>rg. covers rg x 0) regions)) [0, 1, 2] = [1, 1, 1]"
    using r by (intro exI [of _ regions] conjI)
  then show ?thesis by (simp only: strip_fields simp_thms)
qed

text \<open>The keys of the regions of one run determine the regions' corners.\<close>

lemma regions_keys_distinct:
  assumes "sliceRegions sv t = Inr regions"
  shows "distinct (map regKey regions)"
proof -
  from sliceRegions_Inr [OF assms] obtain bmp c0 c1 c2 c3
    where ly: "loopY sv (tileSize t) (c0, c1, c2, c3) bmp c3 = Inr regions" by metis
  from loopY_geom [OF ly] have
    wp: "\<forall>rg\<in>set regions. wellPlaced sv (tileSize t) (c0, c1, c2, c3) bmp rg"
    and d: "distinct (map (\<lambda>rg. (regX rg, regY rg)) regions)"
    by simp_all
  define K where "K = (\<lambda>p :: int \<times> int. templateTileName c0 c1 (fst p + c2) (snd p + c3))"
  have key: "regKey rg = K (regX rg, regY rg)" if "rg \<in> set regions" for rg
  proof -
    from wp that have "rg = tileBody sv (c0, c1, c2, c3) bmp (regX rg + c2) (regY rg + c3) (regW rg) (regH rg)"
      by (simp add: wellPlaced_def)
    then have "regKey rg = regKey (tileBody sv (c0, c1, c2, c3) bmp (regX rg + c2) (regY rg + c3) (regW rg) (regH rg))"
      by simp
    then show ?thesis by (simp only: tileBody_fields K_def fst_conv snd_conv)
  qed
  have "inj K"
  proof (rule injI)
    fix p p' assume "K p = K p'"
    then have "fst p + c2 = fst p' + c2 \<and> snd p + c3 = snd p' + c3"
      unfolding K_def by (rule templateTileName_inj)
    then show "p = p'" by (simp add: prod_eq_iff)
  qed
  have "distinct (map K (map (\<lambda>rg. (regX rg, regY rg)) regions))"
    using d \<open>inj K\<close> by (simp only: distinct_map) (auto simp: inj_on_def inj_def)
  then have "distinct (map (\<lambda>rg. K (regX rg, regY rg)) regions)"
    by (simp add: comp_def)
  moreover have "map regKey regions = map (\<lambda>rg. K (regX rg, regY rg)) regions"
    by (rule map_cong) (simp_all add: key)
  ultimately show ?thesis by (simp only:)
qed

lemma update_fresh: "k \<notin> fst ` set al \<Longrightarrow> AList.update k v al = al @ [(k, v)]"
  by (induction al) auto

lemma storeRegion_fresh:
  "freshFor (regKey rg) acc \<Longrightarrow> storeRegion sv rg acc = appendRegions sv [rg] acc"
  by (cases acc) (simp add: freshFor_def storeRegion_def appendRegions_def update_fresh)

lemma freshFor_append:
  "freshFor k acc \<Longrightarrow> k \<noteq> regKey rg \<Longrightarrow> freshFor k (appendRegions sv [rg] acc)"
  by (cases acc) (simp add: freshFor_def appendRegions_def)

lemma appendRegions_Cons:
  "appendRegions sv rs (appendRegions sv [rg] acc) = appendRegions sv (rg # rs) acc"
  by (cases acc) (simp add: appendRegions_def)

lemma fold_storeRegion:
  assumes "distinct (map regKey rs)" "\<forall>rg\<in>set rs. freshFor (regKey rg) acc"
  shows "fold (storeRegion sv) rs acc = appendRegions sv rs acc"
  using assms
proof (induction rs arbitrary: acc)
  case Nil
  then show ?case by (cases acc) (simp add: appendRegions_def)
next
  case (Cons rg rs)
  have f: "freshFor (regKey rg) acc" using Cons.prems(2) by simp
  have "\<forall>r\<in>set rs. freshFor (regKey r) (appendRegions sv [rg] acc)"
  proof
    fix r assume r: "r \<in> set rs"
    from Cons.prems(1) have "regKey rg \<notin> regKey ` set rs" by simp
    with r have "regKey r \<noteq> regKey rg" by (metis imageI)
    moreover from r Cons.prems(2) have "freshFor (regKey r) acc" by simp
    ultimately show "freshFor (regKey r) (appendRegions sv [rg] acc)" by (intro freshFor_append)
  qed
  moreover have "distinct (map regKey rs)" using Cons.prems(1) by simp
  ultimately have "fold (storeRegion sv) rs (appendRegions sv [rg] acc)
                     = appendRegions sv rs (appendRegions sv [rg] acc)"
    by (rule Cons.IH [rotated])
  then show ?case by (simp add: storeRegion_fresh [OF f] appendRegions_Cons)
qed

text \<open>
  Claim C8. The keys of the regions of one slicing run are pairwise distinct, for every
  image, anchor and tile size for which the run returns. Hence no store into a
  dictionary overwrites another region's: the four chunk maps, the export buffers and
  the colour-index map of a new template each hold, in order, exactly one entry per
  region, under that region's key.
\<close>

theorem sliceRegions_keys_distinct:
  "(sliceRegions sv t = Inr regions \<longrightarrow> distinct (map regKey regions))
   \<and> (createTemplateTiles sv t = Inr (res, t') \<and> colorIndexTiles t = [] \<longrightarrow>
        (\<exists>regions. sliceRegions sv t = Inr regions
           \<and> distinct (map regKey regions)
           \<and> templateTiles res = map (\<lambda>rg. (regKey rg, renderToBitmap sv (origImageData rg))) regions
           \<and> templateTilesAuto res = map (\<lambda>rg. (regKey rg, renderToBitmap sv (mappedImageData rg))) regions
           \<and> templateTilesFull res = map (\<lambda>rg. (regKey rg, renderToBitmapNoMask sv (origImageData rg))) regions
           \<and> templateTilesAutoFull res
               = map (\<lambda>rg. (regKey rg, renderToBitmapNoMask sv (mappedImageData rg))) regions
           \<and> templateTilesBuffers res = map (\<lambda>rg. (regKey rg, exportBuffer sv (origImageData rg))) regions
           \<and> colorIndexTiles t'
               = map (\<lambda>rg. (regKey rg, \<lparr>itW = nat (regW rg), itH = nat (regH rg), itData = regIdx rg\<rparr>))
                   regions))"
proof (intro conjI impI)
  assume "sliceRegions sv t = Inr regions"
  then show "distinct (map regKey regions)" by (rule regions_keys_distinct)
next
  assume a: "createTemplateTiles sv t = Inr (res, t') \<and> colorIndexTiles t = []"
  then obtain rs where rs: "sliceRegions sv t = Inr rs"
    by (auto simp: createTemplateTiles_def split: sum.splits)
  have d: "distinct (map regKey rs)" using rs by (rule regions_keys_distinct)
  let ?e = "(\<lparr>templateTiles = [], templateTilesAuto = [], templateTilesFull = [],
              templateTilesAutoFull = [], templateTilesBuffers = []\<rparr>, [] :: (string \<times> indexTile) list)"
  have "\<forall>rg\<in>set rs. freshFor (regKey rg) ?e" by (simp add: freshFor_def)
  from fold_storeRegion [OF d this, of sv]
  have fo: "fold (storeRegion sv) rs ?e = appendRegions sv rs ?e" .
  from a rs fo have "res = fst (appendRegions sv rs ?e)" "colorIndexTiles t' = snd (appendRegions sv rs ?e)"
    by (auto simp: createTemplateTiles_def split: prod.splits)
  then have "templateTiles res = map (\<lambda>rg. (regKey rg, renderToBitmap sv (origImageData rg))) rs
           \<and> templateTilesAuto res = map (\<lambda>rg. (regKey rg, renderToBitmap sv (mappedImageData rg))) rs
           \<and> templateTilesFull res = map (\<lambda>rg. (regKey rg, renderToBitmapNoMask sv (origImageData rg))) rs
           \<and> templateTilesAutoFull res
               = map (\<lambda>rg. (regKey rg, renderToBitmapNoMask sv (mappedImageData rg))) rs
           \<and> templateTilesBuffers res = map (\<lambda>rg. (regKey rg, exportBuffer sv (origImageData rg))) rs
           \<and> colorIndexTiles t'
               = map (\<lambda>rg. (regKey rg, \<lparr>itW = nat (regW rg), itH = nat (regH rg), itData = regIdx rg\<rparr>)) rs"
    by (simp add: appendRegions_def)
  with rs d show "\<exists>regions. sliceRegions sv t = Inr regions
           \<and> distinct (map regKey regions)
           \<and> templateTiles res = map (\<lambda>rg. (regKey rg, renderToBitmap sv (origImageData rg))) regions
           \<and> templateTilesAuto res = map (\<lambda>rg. (regKey rg, renderToBitmap sv (mappedImageData rg))) regions
           \<and> templateTilesFull res = map (\<lambda>rg. (regKey rg, renderToBitmapNoMask sv (origImageData rg))) regions
           \<and> templateTilesAutoFull res
               = map (\<lambda>rg. (regKey rg, renderToBitmapNoMask sv (mappedImageData rg))) regions
           \<and> templateTilesBuffers res = map (\<lambda>rg. (regKey rg, exportBuffer sv (origImageData rg))) regions
           \<and> colorIndexTiles t'
               = map (\<lambda>rg. (regKey rg, \<lparr>itW = nat (regW rg), itH = nat (regH rg), itData = regIdx rg\<rparr>))
                   regions"
    by blast
qed

lemma strip_tiles_returns:
  "map_sum id (\<lambda>p. ()) (createTemplateTiles exampleServices stripTemplate) = Inr ()"
  by code_simp

theorem sliceRegions_keys_distinct_witness:
  "(\<exists>regions. sliceRegions exampleServices stripTemplate = Inr regions
      \<and> map regKey regions = [''0005,0007,999,000'', ''0006,0007,000,000'']
      \<and> distinct (map regKey regions))
   \<and> colorIndexTiles stripTemplate = []
   \<and> (\<exists>res t'. createTemplateTiles exampleServices stripTemplate = Inr (res, t')
         \<and> map fst (templateTiles res) = [''0005,0007,999,000'', ''0006,0007,000,000'']
         \<and> map fst (colorIndexTiles t') = [''0005,0007,999,000'', ''0006,0007,000,000''])"
proof -
  note th = sliceRegions_keys_distinct
  have e: "colorIndexTiles stripTemplate = []"
    by (simp add: stripTemplate_def newTemplate_def)
  from strip_tiles_returns obtain res t'
    where ct: "createTemplateTiles exampleServices stripTemplate = Inr (res, t')"
    by (cases "createTemplateTiles exampleServices stripTemplate") auto
  from th [of exampleServices stripTemplate _ res t'] strip_regions
  have d: "distinct (map regKey [\<lparr>regKey = ''0005,0007,999,000'', regX = 0, regY = 0, regW = 1, regH = 1,
           regOrig = [255, 255, 255, 255], regMapped = [255, 255, 255, 255], regIdx = [2]\<rparr>,
          \<lparr>regKey = ''0006,0007,000,000'', regX = 1, regY = 0, regW = 2, regH = 1,
           regOrig = [0, 0, 0, 32, 222, 250, 206, 0],
           regMapped = [0, 0, 0, 32, 222, 250, 206, 0], regIdx = [0, 0]\<rparr>])"
    by blast
  from th [of exampleServices stripTemplate "[]" res t'] ct e
  obtain regions where r: "sliceRegions exampleServices stripTemplate = Inr regions"
    and tt: "templateTiles res = map (\<lambda>rg. (regKey rg, renderToBitmap exampleServices (origImageData rg))) regions"
    and ci: "colorIndexTiles t'
               = map (\<lambda>rg. (regKey rg, \<lparr>itW = nat (regW rg), itH = nat (regH rg), itData = regIdx rg\<rparr>))
                   regions"
    by blast
  from r have rg: "regions = [\<lparr>regKey = ''0005,0007,999,000'', regX = 0, regY = 0, regW = 1, regH = 1,
           regOrig = [255, 255, 255, 255], regMapped = [255, 255, 255, 255], regIdx = [2]\<rparr>,
          \<lparr>regKey = ''0006,0007,000,000'', regX = 1, regY = 0, regW = 2, regH = 1,
           regOrig = [0, 0, 0, 32, 222, 250, 206, 0],
           regMapped = [0, 0, 0, 32, 222, 250, 206, 0], regIdx = [0, 0]\<rparr>]"
    by (simp add: strip_regions)
  have "map fst (templateTiles res) = [''0005,0007,999,000'', ''0006,0007,000,000'']"
    "map fst (colorIndexTiles t') = [''0005,0007,999,000'', ''0006,0007,000,000'']"
    by (simp_all add: tt ci rg)
  with ct d e strip_regions show ?thesis by simp
qed

section \<open>Slicing: the sentinel colour\<close>

lemma getImageData_nth:
  assumes "x < w" "y < h" "k < 4"
  shows "getImageData sv bmp sx sy w h ! ((y * w + x) * 4 + k)
           = readBack sv (pixelAt bmp (sx + x) (sy + y)) ! k"
proof -
  have q: "y * w + x < w * h"
  proof -
    have "y * w + x < y * w + w" using assms(1) by simp
    also have "\<dots> = Suc y * w" by simp
    also have "\<dots> \<le> h * w" using assms(2) by (intro mult_le_mono1) simp
    finally show ?thesis by (simp add: mult.commute)
  qed
  define n where "n = y * w + x"
  have i: "n * 4 + k < 4 * (w * h)" using assms(3) q by (simp add: n_def)
  have d: "(n * 4 + k) div 4 = n" using assms(3) by simp
  have m: "(n * 4 + k) mod 4 = k" using assms(3) by simp
  have xy: "n mod w = x" "n div w = y" using assms(1) by (simp_all add: n_def)
  have "getImageData sv bmp sx sy w h ! (n * 4 + k)
          = readBack sv (pixelAt bmp (sx + ((n * 4 + k) div 4) mod w) (sy + ((n * 4 + k) div 4) div w))
              ! ((n * 4 + k) mod 4)"
    unfolding getImageData_def using i by (simp del: upt_Suc)
  then show ?thesis by (simp only: d m xy) (simp add: n_def)
qed

lemma getImageData_length: "length (getImageData sv bmp sx sy w h) = 4 * (w * h)"
  by (simp add: getImageData_def)

text \<open>An opaque pixel is read back unchanged, a fully transparent one as transparent black.\<close>

lemma readBack_opaque: "px ! 3 = 255 \<Longrightarrow> readBack sv px = px"
  by (simp add: readBack_def)

lemma readBack_transparent: "px ! 3 = 0 \<Longrightarrow> readBack sv px = [0, 0, 0, 0]"
  by (simp add: readBack_def)

text \<open>The cell of a region is the cell the pixel loops computed from the bytes read back.\<close>

lemma regionCell_processPixels:
  assumes sr: "sliceRegions sv t = Inr regions" and rg: "rg \<in> set regions"
    and f: "imageFile t = Some bmp"
  shows "regionCell rg x y
           = cell (y * nat (regW rg) + x)
               (processPixels (colorpalette sv)
                  (getImageData sv bmp (nat (regX rg)) (nat (regY rg)) (nat (regW rg)) (nat (regH rg)))
                  (nat (regW rg)) (nat (regH rg)))"
proof -
  from sliceRegions_Inr [OF sr] f obtain c0 c1 c2 c3
    where ly: "loopY sv (tileSize t) (c0, c1, c2, c3) bmp c3 = Inr regions" by (metis option.inject)
  from loopY_geom [OF ly] rg have wp: "wellPlaced sv (tileSize t) (c0, c1, c2, c3) bmp rg" by simp
  then have tb: "rg = tileBody sv (c0, c1, c2, c3) bmp (regX rg + c2) (regY rg + c3) (regW rg) (regH rg)"
    by (simp add: wellPlaced_def)
  have "(regOrig rg, regMapped rg, regIdx rg)
          = processPixels (colorpalette sv)
              (getImageData sv bmp (nat (regX rg)) (nat (regY rg)) (nat (regW rg)) (nat (regH rg)))
              (nat (regW rg)) (nat (regH rg))"
    by (subst (1 2 3) tb) (simp add: tileBody_def Let_def split: prod.splits)
  then show ?thesis by (simp add: regionCell_def)
qed

text \<open>The one region of the one-pixel template, by evaluation.\<close>

lemma ghost_regions:
  "sliceRegions exampleServices ghostTemplate =
     Inr [\<lparr>regKey = ''0000,0000,000,000'', regX = 0, regY = 0, regW = 1, regH = 1,
           regOrig = [0, 0, 0, 0], regMapped = [0, 0, 0, 0], regIdx = [0]\<rparr>]"
  by code_simp

lemma ghost_fields: "imageFile ghostTemplate = Some ghostBitmap"
  by (simp add: ghostTemplate_def newTemplate_def)

text \<open>
  Claim C6, as stated, fails: the one pixel of the one-pixel template has RGB
  (222, 250, 206) and alpha 0 and lies at region-local (0, 0), where \<open>(x + y) mod 2 = 0\<close>;
  the working canvas returns it as (0, 0, 0, 0), line 183 does not match, and both
  output arrays hold alpha 0 there, not 32.
\<close>

theorem sentinel_transparent_source_counterexample:
  "pixelAt ghostBitmap 0 0 = [222, 250, 206, 0]
   \<and> map_sum id (map (\<lambda>rg. (regX rg, regY rg, regW rg, regH rg, regOrig rg, regMapped rg, regIdx rg)))
        (sliceRegions exampleServices ghostTemplate)
       = Inr [(0, 0, 1, 1, [0, 0, 0, 0], [0, 0, 0, 0], [0])]"
  by code_simp

text \<open>
  Claim C6, amended. In a region produced by slicing, a pixel whose RGB as read back
  from the working canvas is (222, 250, 206), whatever the alpha read back, has
  palette-index entry 0; where \<open>(x + y) mod 2 = 0\<close> in region-local coordinates its four
  bytes are (0, 0, 0, 32) in both output arrays, and elsewhere they are
  (222, 250, 206, 0) in both. An opaque pixel of the file with that colour is read back
  unchanged and so classified. A fully transparent pixel of the file, whatever its
  colour, is read back as (0, 0, 0, 0) and is not: its four bytes are (0, 0, 0, 0) in
  both output arrays and its palette-index entry is 0.
\<close>

theorem sentinel_checkerboard:
  assumes sr: "sliceRegions sv t = Inr regions" and rg: "rg \<in> set regions"
    and f: "imageFile t = Some bmp"
    and x: "x < nat (regW rg)" and y: "y < nat (regH rg)"
  shows "(take 3 (readBack sv (pixelAt bmp (nat (regX rg) + x) (nat (regY rg) + y))) = [222, 250, 206]
            \<longrightarrow> regionCell rg x y
                  = (if (x + y) mod 2 = 0 then ([0, 0, 0, 32], [0, 0, 0, 32], 0)
                     else ([222, 250, 206, 0], [222, 250, 206, 0], 0)))
       \<and> (pixelAt bmp (nat (regX rg) + x) (nat (regY rg) + y) = [222, 250, 206, 255]
            \<longrightarrow> regionCell rg x y
                  = (if (x + y) mod 2 = 0 then ([0, 0, 0, 32], [0, 0, 0, 32], 0)
                     else ([222, 250, 206, 0], [222, 250, 206, 0], 0)))
       \<and> (pixelAt bmp (nat (regX rg) + x) (nat (regY rg) + y) ! 3 = 0
            \<longrightarrow> regionCell rg x y = ([0, 0, 0, 0], [0, 0, 0, 0], 0))"
proof -
  define w where "w = nat (regW rg)"
  define h where "h = nat (regH rg)"
  define src where "src = getImageData sv bmp (nat (regX rg)) (nat (regY rg)) w h"
  define px where "px = readBack sv (pixelAt bmp (nat (regX rg) + x) (nat (regY rg) + y))"
  have rc: "regionCell rg x y = cell (y * w + x) (processPixels (colorpalette sv) src w h)"
    unfolding w_def h_def src_def by (rule regionCell_processPixels [OF sr rg f])
  have len: "length src = 4 * (w * h)" by (simp add: src_def getImageData_length)
  have xw: "x < w" and yh: "y < h" using x y by (simp_all add: w_def h_def)
  have byte: "src ! ((y * w + x) * 4 + k) = px ! k" if "k < 4" for k
    unfolding src_def px_def using xw yh that by (rule getImageData_nth)
  have b: "src ! ((y * w + x) * 4) = px ! 0" "src ! ((y * w + x) * 4 + 1) = px ! 1"
    "src ! ((y * w + x) * 4 + 2) = px ! 2" "src ! ((y * w + x) * 4 + 3) = px ! 3"
    using byte [of 0] byte [of 1] byte [of 2] byte [of 3] by simp_all
  have hit: "regionCell rg x y
               = (if (x + y) mod 2 = 0 then ([0, 0, 0, 32], [0, 0, 0, 32], 0)
                  else ([222, 250, 206, 0], [222, 250, 206, 0], 0))"
    if t3: "take 3 px = [222, 250, 206]"
  proof -
    have pk: "px ! k = [222, 250, 206] ! k" if "k < 3" for k
      using t3 that by (metis nth_take)
    have s: "src ! ((y * w + x) * 4) = 222" "src ! ((y * w + x) * 4 + 1) = 250"
            "src ! ((y * w + x) * 4 + 2) = 206"
      using b pk [of 0] pk [of 1] pk [of 2] by simp_all
    from processPixels_sentinel [OF xw yh len s, of "colorpalette sv"] rc show ?thesis by simp
  qed
  have opaque: "take 3 px = [222, 250, 206]"
    if "pixelAt bmp (nat (regX rg) + x) (nat (regY rg) + y) = [222, 250, 206, 255]"
    unfolding px_def using that by (simp add: readBack_opaque)
  have miss: "regionCell rg x y = ([0, 0, 0, 0], [0, 0, 0, 0], 0)"
    if "pixelAt bmp (nat (regX rg) + x) (nat (regY rg) + y) ! 3 = 0"
  proof -
    from that have "px = [0, 0, 0, 0]" unfolding px_def by (rule readBack_transparent)
    then have s: "src ! ((y * w + x) * 4) = 0" "src ! ((y * w + x) * 4 + 1) = 0"
            "src ! ((y * w + x) * 4 + 2) = 0" "src ! ((y * w + x) * 4 + 3) = 0"
      using b by simp_all
    from processPixels_transparent [OF xw yh len s, of "colorpalette sv"] rc show ?thesis by simp
  qed
  show ?thesis
    using hit opaque miss unfolding px_def by blast
qed

theorem sentinel_checkerboard_witness:
  "sliceRegions exampleServices stripTemplate =
     Inr [\<lparr>regKey = ''0005,0007,999,000'', regX = 0, regY = 0, regW = 1, regH = 1,
           regOrig = [255, 255, 255, 255], regMapped = [255, 255, 255, 255], regIdx = [2]\<rparr>,
          \<lparr>regKey = ''0006,0007,000,000'', regX = 1, regY = 0, regW = 2, regH = 1,
           regOrig = [0, 0, 0, 32, 222, 250, 206, 0],
           regMapped = [0, 0, 0, 32, 222, 250, 206, 0], regIdx = [0, 0]\<rparr>]
   \<and> pixelAt stripBitmap 1 0 = [222, 250, 206, 255]
   \<and> pixelAt stripBitmap 2 0 = [222, 250, 206, 255]
   \<and> take 3 (readBack exampleServices (pixelAt stripBitmap 1 0)) = [222, 250, 206]
   \<and> regionCell \<lparr>regKey = ''0006,0007,000,000'', regX = 1, regY = 0, regW = 2, regH = 1,
           regOrig = [0, 0, 0, 32, 222, 250, 206, 0],
           regMapped = [0, 0, 0, 32, 222, 250, 206, 0], regIdx = [0, 0]\<rparr> 0 0
       = ([0, 0, 0, 32], [0, 0, 0, 32], 0)
   \<and> regionCell \<lparr>regKey = ''0006,0007,000,000'', regX = 1, regY = 0, regW = 2, regH = 1,
           regOrig = [0, 0, 0, 32, 222, 250, 206, 0],
           regMapped = [0, 0, 0, 32, 222, 250, 206, 0], regIdx = [0, 0]\<rparr> 1 0
       = ([222, 250, 206, 0], [222, 250, 206, 0], 0)
   \<and> sliceRegions exampleServices ghostTemplate =
       Inr [\<lparr>regKey = ''0000,0000,000,000'', regX = 0, regY = 0, regW = 1, regH = 1,
             regOrig = [0, 0, 0, 0], regMapped = [0, 0, 0, 0], regIdx = [0]\<rparr>]
   \<and> pixelAt ghostBitmap 0 0 = [222, 250, 206, 0]
   \<and> regionCell \<lparr>regKey = ''0000,0000,000,000'', regX = 0, regY = 0, regW = 1, regH = 1,
             regOrig = [0, 0, 0, 0], regMapped = [0, 0, 0, 0], regIdx = [0]\<rparr> 0 0
       = ([0, 0, 0, 0], [0, 0, 0, 0], 0)"
proof -
  note th = sentinel_checkerboard
  let ?r1 = "\<lparr>regKey = ''0005,0007,999,000'', regX = 0, regY = 0, regW = 1, regH = 1,
           regOrig = [255, 255, 255, 255], regMapped = [255, 255, 255, 255], regIdx = [2]\<rparr>"
  let ?r2 = "\<lparr>regKey = ''0006,0007,000,000'', regX = 1, regY = 0, regW = 2, regH = 1,
           regOrig = [0, 0, 0, 32, 222, 250, 206, 0],
           regMapped = [0, 0, 0, 32, 222, 250, 206, 0], regIdx = [0, 0]\<rparr>"
  let ?g = "\<lparr>regKey = ''0000,0000,000,000'', regX = 0, regY = 0, regW = 1, regH = 1,
             regOrig = [0, 0, 0, 0], regMapped = [0, 0, 0, 0], regIdx = [0]\<rparr>"
  have m: "?r2 \<in> set [?r1, ?r2]" and mg: "?g \<in> set [?g]" by simp_all
  have p1: "pixelAt stripBitmap 1 0 = [222, 250, 206, 255]"
    and p2: "pixelAt stripBitmap 2 0 = [222, 250, 206, 255]"
    by (simp_all add: pixelAt_def stripBitmap_def)
  have pg: "pixelAt ghostBitmap 0 0 = [222, 250, 206, 0]"
    by (simp add: pixelAt_def ghostBitmap_def)
  have rb: "take 3 (readBack exampleServices (pixelAt stripBitmap 1 0)) = [222, 250, 206]"
    unfolding p1 by (simp add: readBack_def)
  have in2: "0 < nat (regW ?r2)" "1 < nat (regW ?r2)" "0 < nat (regH ?r2)"
    and ing: "0 < nat (regW ?g)" "0 < nat (regH ?g)"
    by simp_all
  have q1: "take 3 (readBack exampleServices (pixelAt stripBitmap (nat (regX ?r2) + 0) (nat (regY ?r2) + 0)))
              = [222, 250, 206]"
    using rb by simp
  have q2: "pixelAt stripBitmap (nat (regX ?r2) + 1) (nat (regY ?r2) + 0) = [222, 250, 206, 255]"
    using p2 by (simp add: numeral_2_eq_2)
  have qg: "pixelAt ghostBitmap (nat (regX ?g) + 0) (nat (regY ?g) + 0) ! 3 = 0"
    using pg by simp
  from th [OF strip_regions m strip_fields(1) in2(1) in2(3)] q1
  have "regionCell ?r2 0 0 = (if (0 + 0) mod 2 = (0::nat) then ([0, 0, 0, 32], [0, 0, 0, 32], 0)
                               else ([222, 250, 206, 0], [222, 250, 206, 0], 0))"
    by blast
  then have e: "regionCell ?r2 0 0 = ([0, 0, 0, 32], [0, 0, 0, 32], 0)" by simp
  from th [OF strip_regions m strip_fields(1) in2(2) in2(3)] q2
  have "regionCell ?r2 1 0 = (if (1 + 0) mod 2 = (0::nat) then ([0, 0, 0, 32], [0, 0, 0, 32], 0)
                               else ([222, 250, 206, 0], [222, 250, 206, 0], 0))"
    by blast
  then have o: "regionCell ?r2 1 0 = ([222, 250, 206, 0], [222, 250, 206, 0], 0)" by simp
  from th [OF ghost_regions mg ghost_fields ing] qg
  have g: "regionCell ?g 0 0 = ([0, 0, 0, 0], [0, 0, 0, 0], 0)" by blast
  from strip_regions p1 p2 rb e o ghost_regions pg g show ?thesis by (intro conjI)
qed

section \<open>Slicing: the key and the tile size\<close>

text \<open>
  A region's key is the specification's key for tiles of 1000 pixels, whatever the
  template's tile size is.
\<close>

lemma regKey_is_spec_key_for_1000:
  assumes sr: "sliceRegions sv t = Inr regions" and rg: "rg \<in> set regions"
    and c: "coords t = Some (c0, c1, c2, c3)" and c2: "0 \<le> c2" and c3: "0 \<le> c3"
  shows "regKey rg = specTileKey 1000 c0 c1 (c2 + regX rg) (c3 + regY rg)"
proof -
  from sliceRegions_Inr [OF sr] c obtain bmp
    where ly: "loopY sv (tileSize t) (c0, c1, c2, c3) bmp c3 = Inr regions"
    by (metis option.inject prod.inject)
  from loopY_geom [OF ly] rg have wp: "wellPlaced sv (tileSize t) (c0, c1, c2, c3) bmp rg" by simp
  then have x0: "0 \<le> regX rg" and y0: "0 \<le> regY rg" by (simp_all add: wellPlaced_def)
  from wp have "rg = tileBody sv (c0, c1, c2, c3) bmp (regX rg + c2) (regY rg + c3) (regW rg) (regH rg)"
    by (simp add: wellPlaced_def)
  then have "regKey rg = regKey (tileBody sv (c0, c1, c2, c3) bmp (regX rg + c2) (regY rg + c3) (regW rg) (regH rg))"
    by simp
  then have "regKey rg = templateTileName c0 c1 (regX rg + c2) (regY rg + c3)"
    by (simp only: tileBody_fields)
  then show ?thesis
    using x0 y0 c2 c3
    by (simp add: templateTileName_def specTileKey_def jsRem_nonneg add.commute)
qed

text \<open>
  Claim C4 at a template whose tile size is 500, with a two-pixel image anchored at
  pixel offset 499. Slicing cuts the image at the tile boundary, absolute pixel 500, as
  the tile size demands; the second region is stored under \<open>0000,0000,500,000\<close>, the
  first tile with offset 500, whereas the key the claim describes, with the tile size as
  divisor and modulus, is \<open>0001,0000,000,000\<close>.
\<close>

theorem templateTileName_ignores_tileSize:
  "tileSize narrowTemplate = 500
   \<and> map_sum id (map (\<lambda>rg. (regKey rg, regX rg, regY rg, regW rg, regH rg)))
        (sliceRegions exampleServices narrowTemplate)
       = Inr [(''0000,0000,499,000'', 0, 0, 1, 1), (''0000,0000,500,000'', 1, 0, 1, 1)]
   \<and> specTileKey (tileSize narrowTemplate) 0 0 499 0 = ''0000,0000,499,000''
   \<and> specTileKey (tileSize narrowTemplate) 0 0 500 0 = ''0001,0000,000,000''"
  by code_simp

end
